theory Spec2Isabelle
  imports Main "HOL-Library.Sublist"
begin

section \<open>Data model (types.ts)\<close>

text \<open>
  The interfaces \<^verbatim>\<open>CharacterInfo\<close>, \<^verbatim>\<open>ScenePrompt\<close> and \<^verbatim>\<open>AnalysisResult\<close>.
  The string-literal union of \<^verbatim>\<open>status\<close> is a datatype; the optional fields
  \<^verbatim>\<open>imageUrl?\<close> and \<^verbatim>\<open>error?\<close> are options (\<open>None\<close> is \<^verbatim>\<open>undefined\<close>).
  The field \<^verbatim>\<open>id\<close> is called \<open>scene_id\<close>, since \<open>id\<close> is the identity function of HOL.
\<close>

record CharacterInfo =
  name :: string
  description :: string

datatype status = Pending | Generating | Completed | Error

record ScenePrompt =
  scene_id :: string
  originalText :: string
  refinedPrompt :: string
  presentCharacters :: "string list"
  status :: status
  imageUrl :: "string option"
  error :: "string option"

record AnalysisResult =
  characters :: "CharacterInfo list"
  visualStyle :: string
  scenes :: "ScenePrompt list"

section \<open>Strings of the host language\<close>

text \<open>
  \<^verbatim>\<open>s.includes(t)\<close>: \<open>t\<close> occurs in \<open>s\<close> at some position.
\<close>

fun includes_str :: "string \<Rightarrow> string \<Rightarrow> bool" where
  "includes_str [] t = (t = [])"
| "includes_str (c # cs) t = (prefix t (c # cs) \<or> includes_str cs t)"

text \<open>
  \<^verbatim>\<open>xs.join(sep)\<close> on an array of strings.
\<close>

fun join :: "string \<Rightarrow> string list \<Rightarrow> string" where
  "join sep [] = []"
| "join sep [x] = x"
| "join sep (x # y # ys) = x @ sep @ join sep (y # ys)"

text \<open>
  \<^verbatim>\<open>String.prototype.toLowerCase\<close> is a builtin of the host language (it follows the
  Unicode case mapping), so the functions below take it as the parameter \<open>toLowerCase\<close>
  and the theorems hold for every such function. \<open>toLowerCase_ascii\<close> is its restriction
  to the ASCII letters, used where a concrete run is evaluated.
\<close>

definition toLowerCase_ascii :: "string \<Rightarrow> string" where
  "toLowerCase_ascii s =
     map (\<lambda>c. case map_of (zip ''ABCDEFGHIJKLMNOPQRSTUVWXYZ'' ''abcdefghijklmnopqrstuvwxyz'') c of
                Some l \<Rightarrow> l
              | None \<Rightarrow> c) s"

section \<open>Character context of a scene (processBulk, lines 62-65 and 69)\<close>

text \<open>
  The predicate of \<^verbatim>\<open>.filter\<close>: some entry of \<^verbatim>\<open>scene.presentCharacters\<close> includes the
  character's name, or is included in it, both in lower case.
\<close>

definition isPresent :: "(string \<Rightarrow> string) \<Rightarrow> string list \<Rightarrow> CharacterInfo \<Rightarrow> bool" where
  "isPresent toLowerCase present c =
     list_ex (\<lambda>n. includes_str (toLowerCase n) (toLowerCase (name c))
                 \<or> includes_str (toLowerCase (name c)) (toLowerCase n)) present"

text \<open>
  The template literal \<^verbatim>\<open>`${c.name} (${c.description})`\<close>.
\<close>

definition renderCharacter :: "CharacterInfo \<Rightarrow> string" where
  "renderCharacter c = name c @ '' ('' @ description c @ '')''"

definition sceneCharacterContext ::
  "(string \<Rightarrow> string) \<Rightarrow> CharacterInfo list \<Rightarrow> string list \<Rightarrow> string" where
  "sceneCharacterContext toLowerCase chars present =
     join ''; '' (map renderCharacter (filter (isPresent toLowerCase present) chars))"

text \<open>
  The argument handed to the image generator,
  \<^verbatim>\<open>sceneCharacterContext || "No specific character"\<close>: a string is falsy exactly when
  it is empty.
\<close>

definition resolve :: "(string \<Rightarrow> string) \<Rightarrow> string list \<Rightarrow> CharacterInfo list \<Rightarrow> string" where
  "resolve toLowerCase present chars =
     (let ctx = sceneCharacterContext toLowerCase chars present
      in if ctx = [] then ''No specific character'' else ctx)"

section \<open>Image generation (geminiService.ts, generateImage)\<close>

text \<open>
  What the code reads of the response of \<^verbatim>\<open>ai.models.generateContent\<close>:
  \<^verbatim>\<open>response.candidates?.[0]?.content?.parts\<close>, and of a part \<^verbatim>\<open>inlineData\<close> and
  \<^verbatim>\<open>inlineData.data\<close>. Every link of the optional chain may be \<^verbatim>\<open>undefined\<close>.
\<close>

record Blob =
  mimeType :: "string option"
  data :: "string option"

record Part =
  part_text :: "string option"
  inlineData :: "Blob option"

record Content =
  parts :: "Part list option"

record Candidate =
  content :: "Content option"

record GenerateContentResponse =
  candidates :: "Candidate list option"

text \<open>
  The request \<^verbatim>\<open>generateImage\<close> sends: the model name, the text of the single part of
  \<^verbatim>\<open>contents\<close>, and \<^verbatim>\<open>config.imageConfig.aspectRatio\<close>.
\<close>

record GenerateContentParameters =
  model :: string
  contents :: string
  aspectRatio :: string

datatype exn = JsError string

text \<open>
  The remote service is a parameter: \<open>ai k req\<close> is what the call number \<open>k\<close> (counted from
  0) answers to the request \<open>req\<close>, a rejection (\<open>Inl\<close>) or a response. The number lets
  the service answer the same request differently at different times.
\<close>

type_synonym service = "nat \<Rightarrow> GenerateContentParameters \<Rightarrow> exn + GenerateContentResponse"

text \<open>
  A template literal renders \<^verbatim>\<open>undefined\<close> as the text "undefined".
\<close>

definition template :: "string option \<Rightarrow> string" where
  "template v = (case v of None \<Rightarrow> ''undefined'' | Some s \<Rightarrow> s)"

definition finalPrompt :: "string \<Rightarrow> string \<Rightarrow> string \<Rightarrow> string" where
  "finalPrompt prompt characterContext globalStyle =
     ''PHOTOREALISTIC CINEMATIC IMAGE.'' @ [CHR 0x0A] @
     ''  STYLE: '' @ globalStyle @ ''.'' @ [CHR 0x0A] @
     ''  ACTIVE CHARACTERS IN THIS SCENE: '' @ characterContext @ ''.'' @ [CHR 0x0A] @
     ''  SCENE DESCRIPTION: '' @ prompt @ ''.'' @ [CHR 0x0A] @
     ''  TECHNICAL: 8k resolution, ultra-detailed, professional color grading, realistic skin textures, natural lighting.''"

definition request :: "string \<Rightarrow> string \<Rightarrow> string \<Rightarrow> string \<Rightarrow> GenerateContentParameters" where
  "request prompt characterContext globalStyle ratio =
     \<lparr>model = ''gemini-2.5-flash-image'',
      contents = finalPrompt prompt characterContext globalStyle,
      aspectRatio = ratio\<rparr>"

text \<open>
  \<^verbatim>\<open>response.candidates?.[0]?.content?.parts || []\<close>.
\<close>

definition responseParts :: "GenerateContentResponse \<Rightarrow> Part list" where
  "responseParts response =
     (case candidates response of
        None \<Rightarrow> []
      | Some [] \<Rightarrow> []
      | Some (c # _) \<Rightarrow>
          (case content c of
             None \<Rightarrow> []
           | Some ct \<Rightarrow> (case parts ct of None \<Rightarrow> [] | Some ps \<Rightarrow> ps)))"

text \<open>
  The loop of lines 82-86 and the \<^verbatim>\<open>throw\<close> of line 88.
\<close>

fun firstInlineData :: "Part list \<Rightarrow> exn + string" where
  "firstInlineData [] = Inl (JsError ''No image data received from API'')"
| "firstInlineData (part # rest) =
     (case inlineData part of
        Some b \<Rightarrow> Inr (''data:image/png;base64,'' @ template (data b))
      | None \<Rightarrow> firstInlineData rest)"

text \<open>
  \<open>generateImage\<close> gets the number of calls made before this one and returns the request it
  sent with its outcome.
\<close>

definition generateImage ::
  "service \<Rightarrow> nat \<Rightarrow> string \<Rightarrow> string \<Rightarrow> string \<Rightarrow> string \<Rightarrow> GenerateContentParameters \<times> (exn + string)" where
  "generateImage ai k prompt characterContext globalStyle ratio =
     (let req = request prompt characterContext globalStyle ratio
      in (req, case ai k req of
                 Inl e \<Rightarrow> Inl e
               | Inr response \<Rightarrow> firstInlineData (responseParts response)))"

section \<open>The component state and its observable effects (App)\<close>

record Progress =
  current :: nat
  total :: nat

record App =
  results :: "AnalysisResult option"
  progress :: Progress
  isAnalyzing :: bool
  isGenerating :: bool
  isZipping :: bool

text \<open>
  An archive under construction: its entries in the order of the calls of \<^verbatim>\<open>zip.file\<close>,
  each with its name, its data and its date. A date is a time in milliseconds.
\<close>

type_synonym date = nat

type_synonym zip = "(string \<times> string option \<times> date) list"

datatype href = Url string | ObjectURL string

text \<open>
  What a call does besides returning: each state update with the value it installs, each
  request sent to the image service, each dialog, console message, archive encoding and
  download, in the order the code performs them. \<open>Uncaught\<close> is an exception that
  leaves a state updater.
\<close>

datatype event =
    SetResults "AnalysisResult option"
  | SetProgress Progress
  | SetIsZipping bool
  | GenerateContent GenerateContentParameters
  | Alert string
  | ConsoleError string
  | GenerateAsync zip
  | Download href string
  | Uncaught exn

record run =
  app :: App
  trace :: "event list"

definition emit :: "event \<Rightarrow> run \<Rightarrow> run" where
  "emit e r = r\<lparr>trace := trace r @ [e]\<rparr>"

definition setResults :: "(AnalysisResult option \<Rightarrow> exn + AnalysisResult option) \<Rightarrow> run \<Rightarrow> run" where
  "setResults updater r =
     (case updater (results (app r)) of
        Inr v \<Rightarrow> emit (SetResults v) (r\<lparr>app := (app r)\<lparr>results := v\<rparr>\<rparr>)
      | Inl e \<Rightarrow> emit (Uncaught e) r)"

definition setProgress :: "(Progress \<Rightarrow> Progress) \<Rightarrow> run \<Rightarrow> run" where
  "setProgress updater r =
     (let v = updater (progress (app r))
      in emit (SetProgress v) (r\<lparr>app := (app r)\<lparr>progress := v\<rparr>\<rparr>))"

definition setIsZipping :: "bool \<Rightarrow> run \<Rightarrow> run" where
  "setIsZipping v r = emit (SetIsZipping v) (r\<lparr>app := (app r)\<lparr>isZipping := v\<rparr>\<rparr>)"

section \<open>The scene loop (processBulk, lines 46-92)\<close>

text \<open>
  The updaters of lines 53-58, 74-80 and 82-88: \<^verbatim>\<open>if (!prev) return null\<close>, then the
  scene at index \<open>i\<close> of a copy of the list is assigned to. Where the list has no index
  \<open>i\<close> the assignment to a field of \<^verbatim>\<open>undefined\<close> raises a TypeError.
\<close>

definition updateScene ::
  "nat \<Rightarrow> (ScenePrompt \<Rightarrow> ScenePrompt) \<Rightarrow> AnalysisResult option \<Rightarrow> exn + AnalysisResult option" where
  "updateScene i f prev =
     (case prev of
        None \<Rightarrow> Inr None
      | Some p \<Rightarrow>
          if i < length (scenes p)
          then Inr (Some (p\<lparr>scenes := (scenes p)[i := f (scenes p ! i)]\<rparr>))
          else Inl (JsError ''TypeError''))"

text \<open>
  The number of requests sent so far.
\<close>

definition callCount :: "event list \<Rightarrow> nat" where
  "callCount evs = length (filter (\<lambda>e. case e of GenerateContent _ \<Rightarrow> True | _ \<Rightarrow> False) evs)"

text \<open>
  One pass of the body of the \<^verbatim>\<open>for\<close> loop, lines 51-91. The \<^verbatim>\<open>catch\<close> of line 81
  takes every rejection of \<^verbatim>\<open>generateImage\<close>. The updaters assign to objects that
  \<open>updatedScenes\<close> shares with the state; of \<open>scene\<close> the loop reads \<^verbatim>\<open>presentCharacters\<close>
  and \<^verbatim>\<open>refinedPrompt\<close> only, which no updater writes, so it reads them from the list
  it built at line 46.
\<close>

definition iteration ::
  "(string \<Rightarrow> string) \<Rightarrow> service \<Rightarrow> AnalysisResult \<Rightarrow> ScenePrompt list \<Rightarrow> string \<Rightarrow> nat \<Rightarrow> run \<Rightarrow> run" where
  "iteration toLowerCase ai analysis updatedScenes ratio i r0 =
     (let scene = updatedScenes ! i;
          r1 = setResults (updateScene i (\<lambda>s. s\<lparr>status := Generating\<rparr>)) r0;
          (req, outcome) =
             generateImage ai (callCount (trace r1)) (refinedPrompt scene)
               (resolve toLowerCase (presentCharacters scene) (characters analysis))
               (visualStyle analysis) ratio;
          r2 = emit (GenerateContent req) r1;
          r3 = (case outcome of
                  Inr url \<Rightarrow>
                    setResults (updateScene i (\<lambda>s. s\<lparr>status := Completed, imageUrl := Some url\<rparr>)) r2
                | Inl e \<Rightarrow>
                    setResults (updateScene i
                       (\<lambda>s. s\<lparr>status := Error, error := Some ''Failed to generate image''\<rparr>)) r2)
      in setProgress (\<lambda>p. p\<lparr>current := i + 1\<rparr>) r3)"

function processBulk_loop ::
  "(string \<Rightarrow> string) \<Rightarrow> service \<Rightarrow> AnalysisResult \<Rightarrow> ScenePrompt list \<Rightarrow> string \<Rightarrow> nat \<Rightarrow> run \<Rightarrow> run" where
  "processBulk_loop toLowerCase ai analysis updatedScenes ratio i r =
     (if i < length updatedScenes
      then processBulk_loop toLowerCase ai analysis updatedScenes ratio (i + 1)
             (iteration toLowerCase ai analysis updatedScenes ratio i r)
      else r)"
  by pat_completeness auto
termination
  by (relation "measure (\<lambda>(_, _, _, updatedScenes, _, i, _). length updatedScenes - i)") auto

text \<open>
  \<open>processBulk\<close> from line 46 on: \<open>analysis\<close> is what \<^verbatim>\<open>analyzeScript\<close> returned, \<open>st\<close>
  the component state when line 46 is reached (line 42 has stored \<open>analysis\<close> in
  \<open>results\<close>). The result holds the final state and everything the run did, in order.
\<close>

definition processBulk ::
  "(string \<Rightarrow> string) \<Rightarrow> service \<Rightarrow> AnalysisResult \<Rightarrow> string \<Rightarrow> App \<Rightarrow> run" where
  "processBulk toLowerCase ai analysis ratio st =
     (let updatedScenes = map (\<lambda>s. s\<lparr>status := Pending\<rparr>) (scenes analysis);
          r1 = setResults
                 (\<lambda>prev. Inr (case prev of Some p \<Rightarrow> Some (p\<lparr>scenes := updatedScenes\<rparr>) | None \<Rightarrow> None))
                 \<lparr>app = st, trace = []\<rparr>;
          r2 = setProgress (\<lambda>_. \<lparr>current = 0, total = length updatedScenes\<rparr>) r1
      in processBulk_loop toLowerCase ai analysis updatedScenes ratio 0 r2)"

section \<open>Downloads (downloadImage, downloadAllAsZip)\<close>

text \<open>
  A number in a template literal: its decimal digits.
\<close>

definition digit :: "nat \<Rightarrow> char" where
  "digit d = ''0123456789'' ! d"

function show_nat :: "nat \<Rightarrow> string" where
  "show_nat n = (if n < 10 then [digit n] else show_nat (n div 10) @ [digit (n mod 10)])"
  by pat_completeness auto
termination
  by (relation "measure id") auto

definition sceneFileName :: "nat \<Rightarrow> string" where
  "sceneFileName i = ''scene-'' @ show_nat (i + 1) @ ''.png''"

definition downloadImage :: "string \<Rightarrow> nat \<Rightarrow> run \<Rightarrow> run" where
  "downloadImage url index r = emit (Download (Url url) (sceneFileName index)) r"

text \<open>
  A value of type \<^verbatim>\<open>string | undefined\<close> in a condition: true for a string that is not
  empty.
\<close>

definition truthy :: "string option \<Rightarrow> bool" where
  "truthy v = (case v of None \<Rightarrow> False | Some s \<Rightarrow> s \<noteq> [])"

text \<open>
  The button of a scene card (the \<^verbatim>\<open>results?.scenes.map((scene, idx) => ...)\<close> of the
  markup, lines 287-307): it exists where \<^verbatim>\<open>scene.imageUrl\<close> is truthy, and a click calls
  \<^verbatim>\<open>downloadImage(scene.imageUrl!, idx)\<close>.
\<close>

definition clickSceneDownload :: "nat \<Rightarrow> App \<Rightarrow> run" where
  "clickSceneDownload idx st =
     (let r = \<lparr>app = st, trace = []\<rparr>
      in case results st of
           None \<Rightarrow> r
         | Some a \<Rightarrow>
             if idx < length (scenes a)
             then (case imageUrl (scenes a ! idx) of
                     Some url \<Rightarrow> if url \<noteq> [] then downloadImage url idx r else r
                   | None \<Rightarrow> r)
             else r)"

text \<open>
  \<^verbatim>\<open>s.split(sep)\<close> for a separator of one character, and \<^verbatim>\<open>xs[i]\<close> on an array, which
  is \<^verbatim>\<open>undefined\<close> out of range.
\<close>

fun split_str :: "char \<Rightarrow> string \<Rightarrow> string list" where
  "split_str sep [] = [[]]"
| "split_str sep (c # cs) =
     (if c = sep then [] # split_str sep cs
      else (case split_str sep cs of
              [] \<Rightarrow> [[c]]
            | w # ws \<Rightarrow> (c # w) # ws))"

definition at_index :: "'a list \<Rightarrow> nat \<Rightarrow> 'a option" where
  "at_index xs i = (if i < length xs then Some (xs ! i) else None)"

definition base64Data :: "string \<Rightarrow> string option" where
  "base64Data url = at_index (split_str CHR '','' url) 1"

text \<open>
  Line 113: the filter keeps a scene when \<^verbatim>\<open>s.imageUrl && s.status === 'completed'\<close> is
  truthy.
\<close>

definition completedScenes :: "ScenePrompt list \<Rightarrow> ScenePrompt list" where
  "completedScenes ss = filter (\<lambda>s. truthy (imageUrl s) \<and> status s = Completed) ss"

text \<open>
  Lines 119-125. \<open>z\<close> is the archive under construction; the data of an entry is \<open>None\<close>
  where \<^verbatim>\<open>split(',')[1]\<close> is \<^verbatim>\<open>undefined\<close>. The call
  \<^verbatim>\<open>zip.file(name, data, {base64: true})\<close> of line 123 gives no \<^verbatim>\<open>date\<close> option, so the
  library stamps the entry with \<^verbatim>\<open>new Date()\<close>, the time of the call. The clock is the
  parameter \<open>now\<close>: \<open>now i\<close> is the time at the call of pass \<open>i\<close>.
\<close>

function zipLoop :: "(nat \<Rightarrow> date) \<Rightarrow> ScenePrompt list \<Rightarrow> nat \<Rightarrow> zip \<Rightarrow> zip" where
  "zipLoop now completed i z =
     (if i < length completed
      then zipLoop now completed (i + 1)
             (let scene = completed ! i
              in case imageUrl scene of
                   Some url \<Rightarrow>
                     if url \<noteq> [] then z @ [(sceneFileName i, base64Data url, now i)] else z
                 | None \<Rightarrow> z)
      else z)"
  by pat_completeness auto
termination
  by (relation "measure (\<lambda>(_, completed, i, _). length completed - i)") auto

text \<open>
  \<open>generateAsync\<close> is the encoder of the archive library: the blob for the entries
  (names, data and dates), or a rejection. \<open>zip0\<close> is the empty archive of line 112,
  \<^verbatim>\<open>new JSZip()\<close>.
\<close>

definition downloadAllAsZip :: "(zip \<Rightarrow> exn + string) \<Rightarrow> (nat \<Rightarrow> date) \<Rightarrow> App \<Rightarrow> run" where
  "downloadAllAsZip generateAsync now st =
     (let r0 = \<lparr>app = st, trace = []\<rparr>
      in case results st of
           None \<Rightarrow> r0
         | Some a \<Rightarrow>
             (let r1 = setIsZipping True r0;
                  zip0 = [];
                  completed = completedScenes (scenes a)
              in if length completed = 0
                 then setIsZipping False (emit (Alert ''No images ready to download yet.'') r1)
                 else (let z = zipLoop now completed 0 zip0;
                           r2 = emit (GenerateAsync z) r1;
                           r3 = (case generateAsync z of
                                   Inr blob \<Rightarrow> emit (Download (ObjectURL blob) ''visionbulk-scenes.zip'') r2
                                 | Inl err \<Rightarrow> emit (ConsoleError ''Failed to create ZIP'') r2)
                       in setIsZipping False r3)))"

section \<open>Vocabulary of the properties\<close>

text \<open>
  The request the loop sends for a scene, the outcome of call number \<open>k\<close> when it is
  made for that scene, and what lines 74-88 make of a scene for an outcome.
\<close>

definition sceneRequest ::
  "(string \<Rightarrow> string) \<Rightarrow> AnalysisResult \<Rightarrow> string \<Rightarrow> ScenePrompt \<Rightarrow> GenerateContentParameters" where
  "sceneRequest toLowerCase analysis ratio s =
     request (refinedPrompt s) (resolve toLowerCase (presentCharacters s) (characters analysis))
       (visualStyle analysis) ratio"

definition attempt ::
  "(string \<Rightarrow> string) \<Rightarrow> service \<Rightarrow> AnalysisResult \<Rightarrow> string \<Rightarrow> nat \<Rightarrow> ScenePrompt \<Rightarrow> exn + string" where
  "attempt toLowerCase ai analysis ratio k s =
     snd (generateImage ai k (refinedPrompt s)
            (resolve toLowerCase (presentCharacters s) (characters analysis))
            (visualStyle analysis) ratio)"

definition settle :: "exn + string \<Rightarrow> ScenePrompt \<Rightarrow> ScenePrompt" where
  "settle outcome s =
     (case outcome of
        Inr url \<Rightarrow> s\<lparr>status := Completed, imageUrl := Some url\<rparr>
      | Inl e \<Rightarrow> s\<lparr>status := Error, error := Some ''Failed to generate image''\<rparr>)"

text \<open>
  The scene list when the first \<open>k\<close> scenes of \<open>upd\<close> have been through the loop, scene
  \<open>j\<close> with call number \<open>j\<close>.
\<close>

definition scenesAfter ::
  "(string \<Rightarrow> string) \<Rightarrow> service \<Rightarrow> AnalysisResult \<Rightarrow> string \<Rightarrow> ScenePrompt list \<Rightarrow> nat \<Rightarrow> ScenePrompt list" where
  "scenesAfter toLowerCase ai analysis ratio upd k =
     map (\<lambda>j. if j < k then settle (attempt toLowerCase ai analysis ratio j (upd ! j)) (upd ! j)
              else upd ! j) [0..<length upd]"

text \<open>
  What pass \<open>j\<close> of the loop does, in a state whose \<open>results\<close> is \<open>p\<close> with the scene
  list above.
\<close>

definition passEvents ::
  "(string \<Rightarrow> string) \<Rightarrow> service \<Rightarrow> AnalysisResult \<Rightarrow> string \<Rightarrow> AnalysisResult \<Rightarrow> ScenePrompt list \<Rightarrow> nat \<Rightarrow> event list" where
  "passEvents toLowerCase ai analysis ratio p upd j =
     [SetResults (Some (p\<lparr>scenes := (scenesAfter toLowerCase ai analysis ratio upd j)
                                    [j := (upd ! j)\<lparr>status := Generating\<rparr>]\<rparr>)),
      GenerateContent (sceneRequest toLowerCase analysis ratio (upd ! j)),
      SetResults (Some (p\<lparr>scenes := scenesAfter toLowerCase ai analysis ratio upd (Suc j)\<rparr>)),
      SetProgress \<lparr>current = Suc j, total = length upd\<rparr>]"

text \<open>
  The parts of a trace: the values given to \<open>results\<close>, the values given to \<open>progress\<close>,
  and the requests sent, each in order.
\<close>

fun resultsUpdates :: "event list \<Rightarrow> AnalysisResult option list" where
  "resultsUpdates [] = []"
| "resultsUpdates (SetResults v # es) = v # resultsUpdates es"
| "resultsUpdates (_ # es) = resultsUpdates es"

fun progressUpdates :: "event list \<Rightarrow> Progress list" where
  "progressUpdates [] = []"
| "progressUpdates (SetProgress v # es) = v # progressUpdates es"
| "progressUpdates (_ # es) = progressUpdates es"

fun requestsSent :: "event list \<Rightarrow> GenerateContentParameters list" where
  "requestsSent [] = []"
| "requestsSent (GenerateContent req # es) = req # requestsSent es"
| "requestsSent (_ # es) = requestsSent es"

text \<open>
  The scenes of a value of \<open>results\<close>, and the statuses a scene at position \<open>j\<close> goes
  through in a list of such values.
\<close>

definition scenesOf :: "AnalysisResult option \<Rightarrow> ScenePrompt list" where
  "scenesOf v = (case v of None \<Rightarrow> [] | Some a \<Rightarrow> scenes a)"

definition statusHistory :: "nat \<Rightarrow> AnalysisResult option list \<Rightarrow> status list" where
  "statusHistory j vs = map (\<lambda>v. status (scenesOf v ! j)) vs"

text \<open>
  A scene is well formed when \<open>imageUrl\<close> is set exactly in the status \<open>Completed\<close> and
  \<open>error\<close> exactly in the status \<open>Error\<close>, and what is set is not the empty string.
\<close>

definition wellFormed :: "ScenePrompt \<Rightarrow> bool" where
  "wellFormed s \<longleftrightarrow>
     (imageUrl s \<noteq> None \<longleftrightarrow> status s = Completed) \<and> (error s \<noteq> None \<longleftrightarrow> status s = Error)
   \<and> (truthy (imageUrl s) \<longleftrightarrow> status s = Completed) \<and> (truthy (error s) \<longleftrightarrow> status s = Error)"

section \<open>A concrete run\<close>

text \<open>
  A sheet of two characters and an analysis of three scenes, whose statuses the analysis
  step has set at will; a service that answers every call but its second with an image
  (a text part, then a part with inline data) and rejects the second; the component state
  at line 46, with the leftover progress of an earlier run.
\<close>

definition exampleSheet :: "CharacterInfo list" where
  "exampleSheet =
     [\<lparr>name = ''Ayesha'', description = ''tall''\<rparr>, \<lparr>name = ''Bilal'', description = ''short''\<rparr>]"

definition exampleScene :: "string \<Rightarrow> string list \<Rightarrow> status \<Rightarrow> ScenePrompt" where
  "exampleScene i present st =
     \<lparr>scene_id = i, originalText = ''text'', refinedPrompt = ''prompt'',
      presentCharacters = present, status = st, imageUrl = None, error = None\<rparr>"

definition exampleAnalysis :: AnalysisResult where
  "exampleAnalysis =
     \<lparr>characters = exampleSheet, visualStyle = ''noir'',
      scenes = [exampleScene ''a'' [''ayesha''] Completed,
                exampleScene ''b'' [] Pending,
                exampleScene ''c'' [''Mr Bilal''] Error]\<rparr>"

definition imageResponse :: "string \<Rightarrow> GenerateContentResponse" where
  "imageResponse d =
     \<lparr>candidates = Some [\<lparr>content = Some \<lparr>parts = Some
        [\<lparr>part_text = Some ''Here is the image'', inlineData = None\<rparr>,
         \<lparr>part_text = None, inlineData = Some \<lparr>mimeType = Some ''image/jpeg'', data = Some d\<rparr>\<rparr>]\<rparr>\<rparr>]\<rparr>"

definition exampleService :: service where
  "exampleService k req =
     (if k = 1 then Inl (JsError ''quota exceeded'')
      else Inr (imageResponse (if k = 0 then ''AAAA'' else ''BBBB'')))"

definition exampleState :: App where
  "exampleState =
     \<lparr>results = Some exampleAnalysis, progress = \<lparr>current = 7, total = 9\<rparr>,
      isAnalyzing = False, isGenerating = True, isZipping = False\<rparr>"

text \<open>
  The scenes and the state this run ends with: the second scene failed.
\<close>

definition exampleDoneScenes :: "ScenePrompt list" where
  "exampleDoneScenes =
     [(exampleScene ''a'' [''ayesha''] Completed)\<lparr>imageUrl := Some ''data:image/png;base64,AAAA''\<rparr>,
      (exampleScene ''b'' [] Error)\<lparr>error := Some ''Failed to generate image''\<rparr>,
      (exampleScene ''c'' [''Mr Bilal''] Completed)\<lparr>imageUrl := Some ''data:image/png;base64,BBBB''\<rparr>]"

definition exampleDone :: App where
  "exampleDone =
     \<lparr>results = Some (exampleAnalysis\<lparr>scenes := exampleDoneScenes\<rparr>),
      progress = \<lparr>current = 3, total = 3\<rparr>,
      isAnalyzing = False, isGenerating = False, isZipping = False\<rparr>"

text \<open>
  An encoder that writes the name and the date of every entry into the blob, one that
  rejects every archive, and a clock that stands at one time during a call.
\<close>

definition listingEncoder :: "zip \<Rightarrow> exn + string" where
  "listingEncoder z = Inr (concat (map (\<lambda>(n, d, t). n @ ''@'' @ show_nat t @ '';'') z))"

definition failingEncoder :: "zip \<Rightarrow> exn + string" where
  "failingEncoder z = Inl (JsError ''Array buffer allocation failed'')"

definition clockAt :: "date \<Rightarrow> nat \<Rightarrow> date" where
  "clockAt t i = t"

text \<open>
  The equations of the three loops are unfolded by hand, one pass at a time.
\<close>

declare show_nat.simps [simp del] zipLoop.simps [simp del] processBulk_loop.simps [simp del]

section \<open>Facts about the model\<close>

subsection \<open>Strings and the resolver\<close>

lemma includes_iff_sublist: "includes_str s t \<longleftrightarrow> sublist t s"
  by (induction s) (auto simp: sublist_Cons_right)

lemma join_Cons_not_Nil: "x \<noteq> [] \<Longrightarrow> join sep (x # xs) \<noteq> []"
  by (cases xs) auto

lemma join_concat: "join sep (x # xs) = x @ concat (map (\<lambda>y. sep @ y) xs)"
  by (induction xs arbitrary: x) simp_all

lemma renderCharacter_not_Nil: "renderCharacter c \<noteq> []"
  by (simp add: renderCharacter_def)

lemma sceneCharacterContext_empty_iff:
  "sceneCharacterContext lc chars present = [] \<longleftrightarrow> filter (isPresent lc present) chars = []"
proof (cases "filter (isPresent lc present) chars")
  case Nil
  then show ?thesis by (simp add: sceneCharacterContext_def)
next
  case (Cons c cs)
  then show ?thesis
    by (simp add: sceneCharacterContext_def join_Cons_not_Nil renderCharacter_not_Nil)
qed

lemma isPresent_iff:
  "isPresent lc present c \<longleftrightarrow>
     (\<exists>e \<in> set present. sublist (lc (name c)) (lc e) \<or> sublist (lc e) (lc (name c)))"
  by (simp add: isPresent_def list_ex_iff includes_iff_sublist)

subsection \<open>Splitting and the image payload\<close>



lemma split_str_Cons_sep: "split_str sep (sep # s) = [] # split_str sep s"
  by simp






lemma snd_generateImage:
  "snd (generateImage ai k prompt ctx style ratio) =
     (case ai k (request prompt ctx style ratio) of
        Inl e \<Rightarrow> Inl e
      | Inr response \<Rightarrow> firstInlineData (responseParts response))"
  by (simp add: generateImage_def Let_def)

lemma fst_generateImage:
  "fst (generateImage ai k prompt ctx style ratio) = request prompt ctx style ratio"
  by (simp add: generateImage_def Let_def)

subsection \<open>File names and the archive loop\<close>

lemma digit_inj: "a < 10 \<Longrightarrow> b < 10 \<Longrightarrow> digit a = digit b \<Longrightarrow> a = b"
proof -
  assume a: "a < 10" and b: "b < 10" and e: "digit a = digit b"
  have d: "distinct ''0123456789''" by simp
  have l: "length ''0123456789'' = 10" by simp
  from e have "''0123456789'' ! a = ''0123456789'' ! b" by (simp add: digit_def)
  with d a b l show "a = b" by (simp add: nth_eq_iff_index_eq)
qed

lemma show_nat_not_Nil: "show_nat n \<noteq> []"
  by (subst show_nat.simps) simp

lemma show_nat_inj: "show_nat m = show_nat n \<Longrightarrow> m = n"
proof (induction m arbitrary: n rule: show_nat.induct)
  case (1 m)
  show ?case
  proof (cases "m < 10")
    case True
    with "1.prems" have "[digit m] = show_nat n" by (subst (asm) show_nat.simps) simp
    then have "[digit m] = (if n < 10 then [digit n] else show_nat (n div 10) @ [digit (n mod 10)])"
      by (subst (asm) show_nat.simps) simp
    with True show ?thesis
      using show_nat_not_Nil[of "n div 10"]
      by (auto split: if_splits dest: digit_inj)
  next
    case False
    with "1.prems" have m: "show_nat (m div 10) @ [digit (m mod 10)] = show_nat n"
      by (subst (asm) show_nat.simps) simp
    then have n: "show_nat (m div 10) @ [digit (m mod 10)]
         = (if n < 10 then [digit n] else show_nat (n div 10) @ [digit (n mod 10)])"
      by (subst (asm) (2) show_nat.simps) simp
    have "\<not> n < 10" using n by (auto simp: show_nat_not_Nil)
    with n have "show_nat (m div 10) = show_nat (n div 10)" "digit (m mod 10) = digit (n mod 10)"
      by auto
    with "1.IH" False have "m div 10 = n div 10" "m mod 10 = n mod 10"
      using digit_inj[of "m mod 10" "n mod 10"] by auto
    then show ?thesis by (metis div_mult_mod_eq)
  qed
qed

lemma sceneFileName_inj: "sceneFileName i = sceneFileName j \<longleftrightarrow> i = j"
  by (auto simp: sceneFileName_def dest: show_nat_inj)

lemma zipLoop_closed:
  "zipLoop now cs i z =
     z @ concat (map (\<lambda>j. case imageUrl (cs ! j) of
                            Some url \<Rightarrow> if url \<noteq> [] then [(sceneFileName j, base64Data url, now j)] else []
                          | None \<Rightarrow> []) [i..<length cs])"
proof (induction "length cs - i" arbitrary: i z)
  case 0
  then show ?case by (subst zipLoop.simps) simp
next
  case (Suc k)
  then have lt: "i < length cs" and k: "k = length cs - (i + 1)" by auto
  have u: "[i..<length cs] = i # [Suc i..<length cs]" using lt by (simp add: upt_conv_Cons)
  have ih: "\<And>z'. zipLoop now cs (Suc i) z' =
     z' @ concat (map (\<lambda>j. case imageUrl (cs ! j) of
                            Some url \<Rightarrow> if url \<noteq> [] then [(sceneFileName j, base64Data url, now j)] else []
                          | None \<Rightarrow> []) [Suc i..<length cs])"
    using Suc.hyps(1)[of "Suc i"] k by simp
  show ?case
    by (subst zipLoop.simps) (simp add: lt ih u Let_def split: option.splits)
qed

lemma truthy_iff: "truthy v \<longleftrightarrow> (\<exists>u. v = Some u \<and> u \<noteq> [])"
  by (cases v) (auto simp: truthy_def)

lemma completedScenes_iff:
  "completedScenes ss = filter (\<lambda>s. status s = Completed \<and> (\<exists>u. imageUrl s = Some u \<and> u \<noteq> [])) ss"
  unfolding completedScenes_def by (rule filter_cong) (auto simp: truthy_iff)

lemma completed_truthy: "s \<in> set (completedScenes ss) \<Longrightarrow> \<exists>u. imageUrl s = Some u \<and> u \<noteq> []"
  by (auto simp: completedScenes_def truthy_iff)

lemma zipLoop_completed:
  "zipLoop now (completedScenes ss) 0 [] =
     map (\<lambda>j. (sceneFileName j, base64Data (the (imageUrl (completedScenes ss ! j))), now j))
       [0..<length (completedScenes ss)]"
proof -
  have h: "(case imageUrl (completedScenes ss ! j) of
             Some url \<Rightarrow> if url \<noteq> [] then [(sceneFileName j, base64Data url, now j)] else []
           | None \<Rightarrow> [])
          = [(sceneFileName j, base64Data (the (imageUrl (completedScenes ss ! j))), now j)]"
    if "j < length (completedScenes ss)" for j
  proof -
    from that have "completedScenes ss ! j \<in> set (completedScenes ss)" by simp
    from completed_truthy[OF this] show ?thesis by auto
  qed
  have e: "map (\<lambda>j. case imageUrl (completedScenes ss ! j) of
                            Some url \<Rightarrow> if url \<noteq> [] then [(sceneFileName j, base64Data url, now j)] else []
                          | None \<Rightarrow> []) [0..<length (completedScenes ss)]
           = map (\<lambda>j. [(sceneFileName j, base64Data (the (imageUrl (completedScenes ss ! j))), now j)])
               [0..<length (completedScenes ss)]"
    by (rule map_cong[OF refl]) (simp add: h)
  show ?thesis
    unfolding zipLoop_closed e by (simp add: concat_map_singleton)
qed

subsection \<open>The effects of the bundler\<close>

lemma downloadAllAsZip_None:
  "results st = None \<Longrightarrow> downloadAllAsZip enc now st = \<lparr>app = st, trace = []\<rparr>"
  by (simp add: downloadAllAsZip_def)

lemma downloadAllAsZip_empty:
  assumes "results st = Some a" and "completedScenes (scenes a) = []"
  shows "downloadAllAsZip enc now st =
           \<lparr>app = st\<lparr>isZipping := False\<rparr>,
            trace = [SetIsZipping True, Alert ''No images ready to download yet.'', SetIsZipping False]\<rparr>"
  using assms by (simp add: downloadAllAsZip_def setIsZipping_def emit_def Let_def)

lemma downloadAllAsZip_some:
  assumes "results st = Some a" and "completedScenes (scenes a) \<noteq> []"
  shows "downloadAllAsZip enc now st =
           \<lparr>app = st\<lparr>isZipping := False\<rparr>,
            trace = [SetIsZipping True,
                     GenerateAsync (zipLoop now (completedScenes (scenes a)) 0 []),
                     (case enc (zipLoop now (completedScenes (scenes a)) 0 []) of
                        Inr blob \<Rightarrow> Download (ObjectURL blob) ''visionbulk-scenes.zip''
                      | Inl err \<Rightarrow> ConsoleError ''Failed to create ZIP''),
                     SetIsZipping False]\<rparr>"
  using assms by (simp add: downloadAllAsZip_def setIsZipping_def emit_def Let_def split: sum.splits)


lemma list_of_length_2: "length z = 2 \<Longrightarrow> z = [z ! 0, z ! 1]"
  by (cases z; cases "tl z") auto

lemma downloadAllAsZip_results_only:
  "results st' = results st \<Longrightarrow>
     trace (downloadAllAsZip enc now st') = trace (downloadAllAsZip enc now st)"
proof (cases "results st")
  case None
  then show "results st' = results st \<Longrightarrow> ?thesis" by (simp add: downloadAllAsZip_None)
next
  case (Some a)
  then show "results st' = results st \<Longrightarrow> ?thesis"
    by (cases "completedScenes (scenes a) = []")
       (simp_all add: downloadAllAsZip_empty downloadAllAsZip_some)
qed

lemma downloadAllAsZip_app:
  "app (downloadAllAsZip enc now st) = (if results st = None then st else st\<lparr>isZipping := False\<rparr>)"
proof (cases "results st")
  case None
  then show ?thesis by (simp add: downloadAllAsZip_None)
next
  case (Some a)
  then show ?thesis
    by (cases "completedScenes (scenes a) = []")
       (simp_all add: downloadAllAsZip_empty downloadAllAsZip_some)
qed

lemma length_filter_eq_iff: "length (filter P xs) = length xs \<longleftrightarrow> (\<forall>x \<in> set xs. P x)"
proof (induction xs)
  case Nil
  then show ?case by simp
next
  case (Cons x xs)
  have "length (filter P xs) \<le> length xs" by simp
  then have "length (filter P xs) \<noteq> Suc (length xs)" by linarith
  with Cons show ?case by auto
qed

lemma completedScenes_split:
  assumes "idx < length ss" and "status (ss ! idx) = Completed"
    and "imageUrl (ss ! idx) = Some url" and "url \<noteq> []"
  shows "completedScenes ss =
           completedScenes (take idx ss) @ ss ! idx # completedScenes (drop (Suc idx) ss)"
proof -
  have "ss = take idx ss @ ss ! idx # drop (Suc idx) ss"
    using assms(1) by (rule id_take_nth_drop)
  then have "completedScenes ss = completedScenes (take idx ss @ ss ! idx # drop (Suc idx) ss)"
    by simp
  also have "\<dots> = completedScenes (take idx ss) @ ss ! idx # completedScenes (drop (Suc idx) ss)"
    using assms(2-4) by (simp add: completedScenes_def truthy_def)
  finally show ?thesis .
qed

text \<open>
  The scenes of the finished example that are bundled, and their archive.
\<close>

lemma example_completed:
  "completedScenes exampleDoneScenes = [exampleDoneScenes ! 0, exampleDoneScenes ! 2]"
  by (simp add: completedScenes_def truthy_def exampleDoneScenes_def exampleScene_def)

lemma example_archive:
  "zipLoop now (completedScenes exampleDoneScenes) 0 [] =
     [(''scene-1.png'', Some ''AAAA'', now 0), (''scene-2.png'', Some ''BBBB'', now 1)]"
proof -
  have u: "[0..<2] = [0, 1]" by code_simp
  have n1: "show_nat (Suc 0) = ''1''" and n2: "show_nat (Suc (Suc 0)) = ''2''"
    by (simp_all add: show_nat.simps digit_def)
  have "zipLoop now (completedScenes exampleDoneScenes) 0 [] =
     map (\<lambda>j. (sceneFileName j, base64Data (the (imageUrl (completedScenes exampleDoneScenes ! j))), now j))
       [0..<length (completedScenes exampleDoneScenes)]"
    by (rule zipLoop_completed)
  also have "\<dots> = [(''scene-1.png'', Some ''AAAA'', now 0), (''scene-2.png'', Some ''BBBB'', now 1)]"
    unfolding example_completed
    by (simp add: u n1 n2 sceneFileName_def exampleDoneScenes_def exampleScene_def base64Data_def
          at_index_def)
  finally show ?thesis .
qed

subsection \<open>The scene loop\<close>

lemma resultsUpdates_append: "resultsUpdates (xs @ ys) = resultsUpdates xs @ resultsUpdates ys"
  by (induction xs rule: resultsUpdates.induct) auto

lemma progressUpdates_append: "progressUpdates (xs @ ys) = progressUpdates xs @ progressUpdates ys"
  by (induction xs rule: progressUpdates.induct) auto

lemma requestsSent_append: "requestsSent (xs @ ys) = requestsSent xs @ requestsSent ys"
  by (induction xs rule: requestsSent.induct) auto

lemma callCount_requestsSent: "callCount evs = length (requestsSent evs)"
  by (induction evs rule: requestsSent.induct) (auto simp: callCount_def)

lemma generateImage_eq:
  "generateImage ai k (refinedPrompt s) (resolve lc (presentCharacters s) (characters analysis))
       (visualStyle analysis) ratio
     = (sceneRequest lc analysis ratio s, attempt lc ai analysis ratio k s)"
  by (simp add: sceneRequest_def attempt_def generateImage_def Let_def)

text \<open>
  One pass of the loop in a state that holds a scene list with a position \<open>i\<close>.
\<close>

lemma iteration_Some:
  assumes "results (app r) = Some p" and "i < length (scenes p)"
  shows "iteration lc ai analysis upd ratio i r =
     \<lparr>app = (app r)\<lparr>results := Some (p\<lparr>scenes := (scenes p)[i :=
                         settle (attempt lc ai analysis ratio (callCount (trace r)) (upd ! i)) (scenes p ! i)]\<rparr>),
                    progress := (progress (app r))\<lparr>current := i + 1\<rparr>\<rparr>,
      trace = trace r @
        [SetResults (Some (p\<lparr>scenes := (scenes p)[i := (scenes p ! i)\<lparr>status := Generating\<rparr>]\<rparr>)),
         GenerateContent (sceneRequest lc analysis ratio (upd ! i)),
         SetResults (Some (p\<lparr>scenes := (scenes p)[i :=
                         settle (attempt lc ai analysis ratio (callCount (trace r)) (upd ! i)) (scenes p ! i)]\<rparr>)),
         SetProgress ((progress (app r))\<lparr>current := i + 1\<rparr>)]\<rparr>"
  using assms
  by (simp add: iteration_def Let_def generateImage_eq setResults_def updateScene_def emit_def
        setProgress_def callCount_requestsSent requestsSent_append settle_def split: sum.splits)

lemma iteration_None:
  assumes "results (app r) = None"
  shows "iteration lc ai analysis upd ratio i r =
     \<lparr>app = (app r)\<lparr>progress := (progress (app r))\<lparr>current := i + 1\<rparr>\<rparr>,
      trace = trace r @
        [SetResults None, GenerateContent (sceneRequest lc analysis ratio (upd ! i)),
         SetResults None, SetProgress ((progress (app r))\<lparr>current := i + 1\<rparr>)]\<rparr>"
  using assms
  by (simp add: iteration_def Let_def generateImage_eq setResults_def updateScene_def emit_def
        setProgress_def split: sum.splits)

text \<open>
  The loop is the passes for the positions from \<open>i\<close> on, in order.
\<close>

lemma processBulk_loop_foldl:
  "processBulk_loop lc ai analysis upd ratio i r =
     foldl (\<lambda>r i. iteration lc ai analysis upd ratio i r) r [i..<length upd]"
proof (induction "length upd - i" arbitrary: i r)
  case 0
  then show ?case by (subst processBulk_loop.simps) simp
next
  case (Suc k)
  then have lt: "i < length upd" and k: "k = length upd - Suc i" by auto
  have u: "[i..<length upd] = i # [Suc i..<length upd]" using lt by (simp add: upt_conv_Cons)
  show ?case
    by (subst processBulk_loop.simps) (simp add: lt u Suc.hyps(1)[OF k])
qed

lemma length_scenesAfter: "length (scenesAfter lc ai analysis ratio upd k) = length upd"
  by (simp add: scenesAfter_def)

lemma nth_scenesAfter:
  "j < length upd \<Longrightarrow>
     scenesAfter lc ai analysis ratio upd k ! j =
       (if j < k then settle (attempt lc ai analysis ratio j (upd ! j)) (upd ! j) else upd ! j)"
  by (simp add: scenesAfter_def)

lemma scenesAfter_0: "scenesAfter lc ai analysis ratio upd 0 = upd"
  by (rule nth_equalityI) (simp_all add: length_scenesAfter nth_scenesAfter)

lemma scenesAfter_Suc:
  "j < length upd \<Longrightarrow>
     (scenesAfter lc ai analysis ratio upd j)
        [j := settle (attempt lc ai analysis ratio j (upd ! j)) (upd ! j)]
     = scenesAfter lc ai analysis ratio upd (Suc j)"
  by (rule nth_equalityI)
     (auto simp: length_scenesAfter nth_scenesAfter nth_list_update less_Suc_eq)

lemma passes_Some:
  assumes "results (app r0) = Some p" and "scenes p = upd"
    and "requestsSent (trace r0) = []"
    and "progress (app r0) = \<lparr>current = 0, total = length upd\<rparr>"
  shows "k \<le> length upd \<Longrightarrow>
     foldl (\<lambda>r i. iteration lc ai analysis upd ratio i r) r0 [0..<k] =
       \<lparr>app = (app r0)\<lparr>results := Some (p\<lparr>scenes := scenesAfter lc ai analysis ratio upd k\<rparr>),
                       progress := \<lparr>current = k, total = length upd\<rparr>\<rparr>,
        trace = trace r0 @ concat (map (passEvents lc ai analysis ratio p upd) [0..<k])\<rparr>"
proof (induction k)
  case 0
  show ?case using assms by (simp add: scenesAfter_0)
next
  case (Suc k)
  let ?r = "\<lparr>app = (app r0)\<lparr>results := Some (p\<lparr>scenes := scenesAfter lc ai analysis ratio upd k\<rparr>),
                       progress := \<lparr>current = k, total = length upd\<rparr>\<rparr>,
        trace = trace r0 @ concat (map (passEvents lc ai analysis ratio p upd) [0..<k])\<rparr>"
  from Suc have k: "k < length upd"
    and ih: "foldl (\<lambda>r i. iteration lc ai analysis upd ratio i r) r0 [0..<k] = ?r" by simp_all
  have calls: "callCount (trace ?r) = k"
    using assms(3)
    by (simp add: callCount_requestsSent requestsSent_append)
       (induction k, simp_all add: requestsSent_append passEvents_def)
  have res: "results (app ?r) = Some (p\<lparr>scenes := scenesAfter lc ai analysis ratio upd k\<rparr>)" by simp
  have rng: "k < length (scenes (p\<lparr>scenes := scenesAfter lc ai analysis ratio upd k\<rparr>))"
    using k by (simp add: length_scenesAfter)
  have "foldl (\<lambda>r i. iteration lc ai analysis upd ratio i r) r0 [0..<Suc k]
          = iteration lc ai analysis upd ratio k ?r"
    by (simp add: ih)
  also have "\<dots> = \<lparr>app = (app r0)\<lparr>results := Some (p\<lparr>scenes := scenesAfter lc ai analysis ratio upd (Suc k)\<rparr>),
                       progress := \<lparr>current = Suc k, total = length upd\<rparr>\<rparr>,
        trace = trace r0 @ concat (map (passEvents lc ai analysis ratio p upd) [0..<Suc k])\<rparr>"
    unfolding iteration_Some[OF res rng] calls
    using k by (simp add: nth_scenesAfter scenesAfter_Suc passEvents_def)
  finally show ?case .
qed

text \<open>
  The whole run from a state that holds a value of \<open>results\<close>.
\<close>

lemma processBulk_Some:
  assumes "results st = Some p"
  shows "processBulk lc ai analysis ratio st =
     \<lparr>app = st\<lparr>results := Some (p\<lparr>scenes := scenesAfter lc ai analysis ratio
                       (map (\<lambda>s. s\<lparr>status := Pending\<rparr>) (scenes analysis)) (length (scenes analysis))\<rparr>),
                progress := \<lparr>current = length (scenes analysis), total = length (scenes analysis)\<rparr>\<rparr>,
      trace = [SetResults (Some (p\<lparr>scenes := map (\<lambda>s. s\<lparr>status := Pending\<rparr>) (scenes analysis)\<rparr>)),
               SetProgress \<lparr>current = 0, total = length (scenes analysis)\<rparr>]
              @ concat (map (passEvents lc ai analysis ratio p
                               (map (\<lambda>s. s\<lparr>status := Pending\<rparr>) (scenes analysis)))
                          [0..<length (scenes analysis)])\<rparr>"
proof -
  let ?upd = "map (\<lambda>s. s\<lparr>status := Pending\<rparr>) (scenes analysis)"
  let ?r0 = "\<lparr>app = st\<lparr>results := Some (p\<lparr>scenes := ?upd\<rparr>),
                         progress := \<lparr>current = 0, total = length ?upd\<rparr>\<rparr>,
              trace = [SetResults (Some (p\<lparr>scenes := ?upd\<rparr>)),
                       SetProgress \<lparr>current = 0, total = length ?upd\<rparr>]\<rparr>"
  have start: "processBulk lc ai analysis ratio st = processBulk_loop lc ai analysis ?upd ratio 0 ?r0"
    using assms by (simp add: processBulk_def Let_def setResults_def setProgress_def emit_def)
  have "foldl (\<lambda>r i. iteration lc ai analysis ?upd ratio i r) ?r0 [0..<length ?upd] =
       \<lparr>app = (app ?r0)\<lparr>results := Some ((p\<lparr>scenes := ?upd\<rparr>)\<lparr>scenes := scenesAfter lc ai analysis ratio ?upd (length ?upd)\<rparr>),
                       progress := \<lparr>current = length ?upd, total = length ?upd\<rparr>\<rparr>,
        trace = trace ?r0 @ concat (map (passEvents lc ai analysis ratio (p\<lparr>scenes := ?upd\<rparr>) ?upd) [0..<length ?upd])\<rparr>"
    by (rule passes_Some) simp_all
  moreover have "passEvents lc ai analysis ratio (p\<lparr>scenes := ?upd\<rparr>) ?upd
                 = passEvents lc ai analysis ratio p ?upd"
    by (rule ext) (simp add: passEvents_def)
  ultimately show ?thesis
    unfolding start processBulk_loop_foldl by simp
qed

subsection \<open>Traces of a run\<close>

lemma remdups_adj_const: "set xs \<subseteq> {a} \<Longrightarrow> remdups_adj (a # xs) = [a]"
  by (induction xs) auto

lemma remdups_adj_three:
  "set ps \<subseteq> {a} \<Longrightarrow> set ts \<subseteq> {c} \<Longrightarrow> a \<noteq> b \<Longrightarrow> b \<noteq> c \<Longrightarrow>
     remdups_adj (a # ps @ b # c # ts) = [a, b, c]"
  by (induction ps) (auto simp: remdups_adj_const)

lemma resultsUpdates_passes:
  "resultsUpdates (concat (map (passEvents lc ai analysis ratio p upd) js)) =
     concat (map (\<lambda>j. [Some (p\<lparr>scenes := (scenesAfter lc ai analysis ratio upd j)
                                    [j := (upd ! j)\<lparr>status := Generating\<rparr>]\<rparr>),
                        Some (p\<lparr>scenes := scenesAfter lc ai analysis ratio upd (Suc j)\<rparr>)]) js)"
  by (induction js) (simp_all add: resultsUpdates_append passEvents_def)

lemma progressUpdates_passes:
  "progressUpdates (concat (map (passEvents lc ai analysis ratio p upd) js)) =
     map (\<lambda>j. \<lparr>current = Suc j, total = length upd\<rparr>) js"
  by (induction js) (simp_all add: progressUpdates_append passEvents_def)

lemma requestsSent_passes:
  "requestsSent (concat (map (passEvents lc ai analysis ratio p upd) js)) =
     map (\<lambda>j. sceneRequest lc analysis ratio (upd ! j)) js"
  by (induction js) (simp_all add: requestsSent_append passEvents_def)

lemma upt_split: "j < n \<Longrightarrow> [0..<n] = [0..<j] @ j # [Suc j..<n]"
proof -
  assume j: "j < n"
  then have "[0..<n] = [0..<j] @ [j..<n]"
    using upt_add_eq_append[of 0 j "n - j"] by simp
  also have "[j..<n] = j # [Suc j..<n]" using j by (simp add: upt_conv_Cons)
  finally show ?thesis .
qed

lemma map_upt_nth: "map (\<lambda>j. f (xs ! j)) [0..<length xs] = map f xs"
  by (rule nth_equalityI) simp_all

lemma sceneRequest_Pending:
  "sceneRequest lc analysis ratio (s\<lparr>status := Pending\<rparr>) = sceneRequest lc analysis ratio s"
  by (simp add: sceneRequest_def)

lemma attempt_Pending:
  "attempt lc ai analysis ratio k (s\<lparr>status := Pending\<rparr>) = attempt lc ai analysis ratio k s"
  by (simp add: attempt_def)

lemma status_settle: "status (settle out s) = Completed \<or> status (settle out s) = Error"
  by (cases out) (simp_all add: settle_def)

lemma attempt_cong:
  "(\<And>req. ai k req = ai' k req) \<Longrightarrow> attempt lc ai analysis ratio k s = attempt lc ai' analysis ratio k s"
  by (simp add: attempt_def generateImage_def Let_def)

text \<open>
  The scenes a run ends with: scene \<open>j\<close> is settled by call number \<open>j\<close>, made for it.
\<close>

lemma final_scenes:
  assumes "results st = Some p"
  shows "scenesOf (results (app (processBulk lc ai analysis ratio st))) =
           map (\<lambda>j. settle (attempt lc ai analysis ratio j (scenes analysis ! j))
                      ((scenes analysis ! j)\<lparr>status := Pending\<rparr>))
             [0..<length (scenes analysis)]"
  unfolding processBulk_Some[OF assms]
  by (simp add: scenesOf_def scenesAfter_def attempt_Pending)

text \<open>
  The contexts of the three scenes of the example.
\<close>

lemma example_contexts:
  "resolve toLowerCase_ascii [''ayesha''] exampleSheet = ''Ayesha (tall)''"
  "resolve toLowerCase_ascii [] exampleSheet = ''No specific character''"
  "resolve toLowerCase_ascii [''Mr Bilal''] exampleSheet = ''Bilal (short)''"
  by code_simp+

lemma nth_map_upt0: "k < n \<Longrightarrow> map f [0..<n] ! k = f k"
  by simp

subsection \<open>Well-formed scenes\<close>

lemma firstInlineData_not_Nil: "firstInlineData ps = Inr url \<Longrightarrow> url \<noteq> []"
  by (induction ps) (auto split: option.splits)

lemma attempt_not_Nil: "attempt lc ai analysis ratio k s = Inr url \<Longrightarrow> url \<noteq> []"
  by (auto simp: attempt_def snd_generateImage split: sum.splits dest: firstInlineData_not_Nil)

lemma wellFormed_Pending:
  "imageUrl s = None \<Longrightarrow> error s = None \<Longrightarrow> wellFormed (s\<lparr>status := Pending\<rparr>)"
  by (simp add: wellFormed_def truthy_def)

lemma wellFormed_Generating:
  "imageUrl s = None \<Longrightarrow> error s = None \<Longrightarrow> wellFormed (s\<lparr>status := Generating\<rparr>)"
  by (simp add: wellFormed_def truthy_def)

lemma wellFormed_settle:
  "imageUrl s = None \<Longrightarrow> error s = None \<Longrightarrow>
     wellFormed (settle (attempt lc ai analysis ratio k s') s)"
  by (cases "attempt lc ai analysis ratio k s'")
     (auto simp: wellFormed_def truthy_def settle_def dest: attempt_not_Nil)

lemma wellFormed_scenesAfter:
  assumes "\<forall>s \<in> set upd. imageUrl s = None \<and> error s = None \<and> status s = Pending"
  shows "\<forall>s \<in> set (scenesAfter lc ai analysis ratio upd k). wellFormed s"
proof
  fix s assume "s \<in> set (scenesAfter lc ai analysis ratio upd k)"
  then obtain j where j: "j < length upd" and s: "s = scenesAfter lc ai analysis ratio upd k ! j"
    by (auto simp: in_set_conv_nth length_scenesAfter)
  from j assms have u: "imageUrl (upd ! j) = None" "error (upd ! j) = None" "status (upd ! j) = Pending"
    by simp_all
  then have "wellFormed (upd ! j)" by (simp add: wellFormed_def truthy_def)
  with u j s show "wellFormed s"
    by (simp add: nth_scenesAfter wellFormed_settle)
qed

lemma wellFormed_generating:
  assumes "\<forall>s \<in> set upd. imageUrl s = None \<and> error s = None \<and> status s = Pending"
    and "j < length upd"
  shows "\<forall>s \<in> set ((scenesAfter lc ai analysis ratio upd j)[j := (upd ! j)\<lparr>status := Generating\<rparr>]).
           wellFormed s"
proof
  fix s assume "s \<in> set ((scenesAfter lc ai analysis ratio upd j)[j := (upd ! j)\<lparr>status := Generating\<rparr>])"
  then have "s = (upd ! j)\<lparr>status := Generating\<rparr> \<or> s \<in> set (scenesAfter lc ai analysis ratio upd j)"
    using set_update_subset_insert[of "scenesAfter lc ai analysis ratio upd j" j] by auto
  then show "wellFormed s"
  proof
    assume "s = (upd ! j)\<lparr>status := Generating\<rparr>"
    with assms show ?thesis by (simp add: wellFormed_Generating)
  next
    assume "s \<in> set (scenesAfter lc ai analysis ratio upd j)"
    with wellFormed_scenesAfter[OF assms(1)] show ?thesis by blast
  qed
qed

text \<open>
  The example run ends with the scenes of \<open>exampleDoneScenes\<close>.
\<close>

lemma example_run_scenes:
  "scenesOf (results (app (processBulk toLowerCase_ascii exampleService exampleAnalysis ''16:9'' exampleState)))
     = exampleDoneScenes"
proof -
  have res: "results exampleState = Some exampleAnalysis" by (simp add: exampleState_def)
  have u: "[0..<3] = [0, 1, 2]" by code_simp
  have n: "length (scenes exampleAnalysis) = 3" by (simp add: exampleAnalysis_def)
  show ?thesis
    unfolding final_scenes[OF res] n u
    by (simp add: attempt_def snd_generateImage exampleService_def imageResponse_def
          responseParts_def settle_def exampleAnalysis_def exampleScene_def exampleDoneScenes_def
          template_def)
qed

lemma statusHistory_Cons: "statusHistory j (v # vs) = status (scenesOf v ! j) # statusHistory j vs"
  by (simp add: statusHistory_def)

lemma statusHistory_append: "statusHistory j (xs @ ys) = statusHistory j xs @ statusHistory j ys"
  by (simp add: statusHistory_def)

lemma statusHistory_pairs:
  "statusHistory j (concat (map (\<lambda>i. [Some (G i), Some (T i)]) js)) =
     concat (map (\<lambda>i. [status (scenes (G i) ! j), status (scenes (T i) ! j)]) js)"
  by (induction js) (simp_all add: statusHistory_def scenesOf_def)

lemma set_concat_pairs_const:
  "(\<And>i. i \<in> set js \<Longrightarrow> f i = a \<and> g i = a) \<Longrightarrow> set (concat (map (\<lambda>i. [f i, g i]) js)) \<subseteq> {a}"
  by (induction js) auto

lemma last_concat_pairs:
  "last (x # concat (map (\<lambda>i. [f i, g i]) [0..<n])) = (if n = 0 then x else g (n - 1))"
  by (cases n) simp_all

section \<open>The character context resolver\<close>

text \<open>
  Claim C1. For every lower-casing function, character sheet and list of present names: a
  character of the sheet is part of the resolved context exactly when its lower-cased name
  is a substring of some lower-cased entry of the present names, or some such entry is a
  substring of its name. When no character is kept the result is the sentence
  "No specific character". Otherwise the result is, in the order of the sheet, the
  rendering "Name (description)" of the first character kept, followed for every further
  character kept by "; " and its rendering. The result is never the empty string.
\<close>

theorem resolver_matches_and_renders:
  "resolve lc present sheet =
     (case filter (\<lambda>c. \<exists>e \<in> set present.
                      sublist (lc (name c)) (lc e) \<or> sublist (lc e) (lc (name c))) sheet of
        [] \<Rightarrow> ''No specific character''
      | c # cs \<Rightarrow>
          (name c @ '' ('' @ description c @ '')'')
          @ concat (map (\<lambda>d. ''; '' @ (name d @ '' ('' @ description d @ '')'')) cs))
   \<and> resolve lc present sheet \<noteq> []"
proof -
  have f: "filter (isPresent lc present) sheet =
           filter (\<lambda>c. \<exists>e \<in> set present.
                          sublist (lc (name c)) (lc e) \<or> sublist (lc e) (lc (name c))) sheet"
    by (rule filter_cong) (auto simp: isPresent_iff)
  show ?thesis
  proof (cases "filter (isPresent lc present) sheet")
    case Nil
    then show ?thesis
      unfolding resolve_def Let_def sceneCharacterContext_def f[symmetric] by simp
  next
    case (Cons c cs)
    have j: "join ''; '' (map renderCharacter (c # cs)) =
               renderCharacter c @ concat (map (\<lambda>d. ''; '' @ renderCharacter d) cs)"
      by (simp add: join_concat comp_def)
    have "renderCharacter c @ concat (map (\<lambda>d. ''; '' @ renderCharacter d) cs) \<noteq> []"
      using renderCharacter_not_Nil[of c] by simp
    with Cons j show ?thesis
      unfolding resolve_def Let_def sceneCharacterContext_def f[symmetric]
      by (simp add: renderCharacter_def)
  qed
qed

text \<open>
  The sheet of Ayesha and Bilal: the entry "ayesha" keeps Ayesha alone; the entries
  "Mr Bilal" and "AYESHA K" keep both, Ayesha first as in the sheet, with "; " between the
  two renderings; and no entry gives the fixed sentence.
\<close>

theorem resolver_witness:
  "resolve toLowerCase_ascii [''ayesha'']
      [\<lparr>name = ''Ayesha'', description = ''tall''\<rparr>, \<lparr>name = ''Bilal'', description = ''short''\<rparr>]
     = ''Ayesha (tall)''
   \<and> resolve toLowerCase_ascii [''Mr Bilal'', ''AYESHA K'']
      [\<lparr>name = ''Ayesha'', description = ''tall''\<rparr>, \<lparr>name = ''Bilal'', description = ''short''\<rparr>]
     = ''Ayesha (tall); Bilal (short)''
   \<and> resolve toLowerCase_ascii []
      [\<lparr>name = ''Ayesha'', description = ''tall''\<rparr>, \<lparr>name = ''Bilal'', description = ''short''\<rparr>]
     = ''No specific character''"
proof -
  let ?sheet = "[\<lparr>name = ''Ayesha'', description = ''tall''\<rparr>, \<lparr>name = ''Bilal'', description = ''short''\<rparr>]"
  have one: "filter (\<lambda>c. \<exists>e \<in> set [''ayesha''].
                 sublist (toLowerCase_ascii (name c)) (toLowerCase_ascii e)
               \<or> sublist (toLowerCase_ascii e) (toLowerCase_ascii (name c))) ?sheet
             = [\<lparr>name = ''Ayesha'', description = ''tall''\<rparr>]"
    by code_simp
  have two: "filter (\<lambda>c. \<exists>e \<in> set [''Mr Bilal'', ''AYESHA K''].
                 sublist (toLowerCase_ascii (name c)) (toLowerCase_ascii e)
               \<or> sublist (toLowerCase_ascii e) (toLowerCase_ascii (name c))) ?sheet
             = ?sheet"
    by code_simp
  have none: "filter (\<lambda>c. \<exists>e \<in> set [].
                 sublist (toLowerCase_ascii (name c)) (toLowerCase_ascii e)
               \<or> sublist (toLowerCase_ascii e) (toLowerCase_ascii (name c))) ?sheet
             = []"
    by simp
  have a: "resolve toLowerCase_ascii [''ayesha''] ?sheet = ''Ayesha (tall)''"
    using resolver_matches_and_renders [of toLowerCase_ascii "[''ayesha'']" ?sheet]
    unfolding one by simp
  have b: "resolve toLowerCase_ascii [''Mr Bilal'', ''AYESHA K''] ?sheet = ''Ayesha (tall); Bilal (short)''"
    using resolver_matches_and_renders [of toLowerCase_ascii "[''Mr Bilal'', ''AYESHA K'']" ?sheet]
    unfolding two by simp
  have c: "resolve toLowerCase_ascii [] ?sheet = ''No specific character''"
    using resolver_matches_and_renders [of toLowerCase_ascii "[]" ?sheet]
    unfolding none by simp
  from a b c show ?thesis by simp
qed

section \<open>The state of the scenes during a run\<close>

text \<open>
  Claim C2. In a run over scenes that come from the analysis with \<open>imageUrl\<close> and
  \<open>error\<close> unset: every value the run gives to \<open>results\<close>, from the one that installs the
  pending scenes (line 47) on, and the value it ends with, holds a scene list in which every
  scene has one of the four statuses, has \<open>imageUrl\<close> set exactly when its status is
  \<open>Completed\<close>, and has \<open>error\<close> set exactly when its status is \<open>Error\<close>; a field that is
  set holds a string that is not empty. The values are the states between two updates: an
  updater that assigns two fields runs as one step.
\<close>

theorem scene_state_invariant:
  assumes "results st = Some analysis"
    and "\<forall>s \<in> set (scenes analysis). imageUrl s = None \<and> error s = None"
  shows "\<forall>v \<in> set (resultsUpdates (trace (processBulk lc ai analysis ratio st))
                   @ [results (app (processBulk lc ai analysis ratio st))]).
           \<exists>a. v = Some a \<and>
             (\<forall>s \<in> set (scenes a).
                  status s \<in> {Pending, Generating, Completed, Error}
                \<and> (imageUrl s \<noteq> None \<longleftrightarrow> status s = Completed)
                \<and> (error s \<noteq> None \<longleftrightarrow> status s = Error)
                \<and> (truthy (imageUrl s) \<longleftrightarrow> status s = Completed)
                \<and> (truthy (error s) \<longleftrightarrow> status s = Error))"
proof
  let ?n = "length (scenes analysis)"
  let ?upd = "map (\<lambda>s. s\<lparr>status := Pending\<rparr>) (scenes analysis)"
  let ?run = "processBulk lc ai analysis ratio st"
  fix v assume v: "v \<in> set (resultsUpdates (trace ?run) @ [results (app ?run)])"
  have upd: "\<forall>s \<in> set ?upd. imageUrl s = None \<and> error s = None \<and> status s = Pending"
    using assms(2) by auto
  have ups: "resultsUpdates (trace ?run) =
      Some (analysis\<lparr>scenes := ?upd\<rparr>) #
      concat (map (\<lambda>j. [Some (analysis\<lparr>scenes := (scenesAfter lc ai analysis ratio ?upd j)
                                    [j := (?upd ! j)\<lparr>status := Generating\<rparr>]\<rparr>),
                        Some (analysis\<lparr>scenes := scenesAfter lc ai analysis ratio ?upd (Suc j)\<rparr>)])
                [0..<?n])"
    by (simp add: processBulk_Some[OF assms(1)] resultsUpdates_passes)
  have fin: "results (app ?run) = Some (analysis\<lparr>scenes := scenesAfter lc ai analysis ratio ?upd ?n\<rparr>)"
    by (simp add: processBulk_Some[OF assms(1)])
  let ?G = "\<lambda>j. analysis\<lparr>scenes := (scenesAfter lc ai analysis ratio ?upd j)
                                    [j := (?upd ! j)\<lparr>status := Generating\<rparr>]\<rparr>"
  let ?T = "\<lambda>k. analysis\<lparr>scenes := scenesAfter lc ai analysis ratio ?upd k\<rparr>"
  from v consider
      (init) "v = Some (analysis\<lparr>scenes := ?upd\<rparr>)"
    | (gen) j where "j < ?n" "v = Some (?G j)"
    | (settled) k where "v = Some (?T k)"
    unfolding ups fin by auto
  then have "\<exists>a. v = Some a \<and> (\<forall>s \<in> set (scenes a). wellFormed s)"
  proof cases
    case init
    moreover have "\<forall>s \<in> set ?upd. wellFormed s"
      using upd by (simp add: wellFormed_def truthy_def)
    ultimately show ?thesis by simp
  next
    case gen
    with wellFormed_generating[OF upd, of j lc ai analysis ratio]
    show ?thesis by simp
  next
    case settled
    with wellFormed_scenesAfter[OF upd, of lc ai analysis ratio k]
    show ?thesis by simp
  qed
  moreover have "status s \<in> {Pending, Generating, Completed, Error}" for s :: ScenePrompt
    by (cases "status s") simp_all
  ultimately show "\<exists>a. v = Some a \<and>
             (\<forall>s \<in> set (scenes a).
                  status s \<in> {Pending, Generating, Completed, Error}
                \<and> (imageUrl s \<noteq> None \<longleftrightarrow> status s = Completed)
                \<and> (error s \<noteq> None \<longleftrightarrow> status s = Error)
                \<and> (truthy (imageUrl s) \<longleftrightarrow> status s = Completed)
                \<and> (truthy (error s) \<longleftrightarrow> status s = Error))"
    unfolding wellFormed_def by blast
qed

text \<open>
  Every value of \<open>results\<close> in the example run, where one scene fails, holds well-formed
  scenes only.
\<close>

theorem scene_state_invariant_witness:
  "list_all (\<lambda>v. case v of
                   None \<Rightarrow> False
                 | Some a \<Rightarrow> list_all (\<lambda>s. (imageUrl s \<noteq> None \<longleftrightarrow> status s = Completed)
                                         \<and> (error s \<noteq> None \<longleftrightarrow> status s = Error)) (scenes a))
     (resultsUpdates (trace (processBulk toLowerCase_ascii exampleService exampleAnalysis ''16:9'' exampleState))
        @ [results (app (processBulk toLowerCase_ascii exampleService exampleAnalysis ''16:9'' exampleState))])"
proof -
  have res: "results exampleState = Some exampleAnalysis" by (simp add: exampleState_def)
  have unset: "\<forall>s \<in> set (scenes exampleAnalysis). imageUrl s = None \<and> error s = None"
    by (simp add: exampleAnalysis_def exampleScene_def)
  from scene_state_invariant[OF res unset, of toLowerCase_ascii exampleService "''16:9''"]
  show ?thesis
    unfolding list_all_iff by fastforce
qed

section \<open>Failure isolation\<close>

text \<open>
  Claim C3. In a run over the scenes of an analysis, whatever the service answers: the
  requests sent are, in order, one for each scene of the list, each built from that scene's
  prompt and its own character context, with the style and the aspect ratio of the run; so
  a failure stops nothing, every scene is attempted exactly once, and in list order. The
  run ends with as many scenes as it started with. The record a scene at position \<open>j\<close>
  ends with is the same under any two services that answer call number \<open>j\<close>, the call made
  for that scene, alike: what happens to the other calls, failure or success, does not
  reach it.
\<close>

theorem failure_isolation:
  assumes "results st = Some analysis"
  shows "requestsSent (trace (processBulk lc ai analysis ratio st)) =
           map (\<lambda>s. request (refinedPrompt s)
                      (resolve lc (presentCharacters s) (characters analysis))
                      (visualStyle analysis) ratio) (scenes analysis)
       \<and> length (scenesOf (results (app (processBulk lc ai analysis ratio st)))) = length (scenes analysis)
       \<and> (\<forall>j < length (scenes analysis). (\<forall>req. ai j req = ai' j req) \<longrightarrow>
             scenesOf (results (app (processBulk lc ai analysis ratio st))) ! j =
             scenesOf (results (app (processBulk lc ai' analysis ratio st))) ! j)"
proof -
  have "requestsSent (trace (processBulk lc ai analysis ratio st)) =
          map (\<lambda>j. sceneRequest lc analysis ratio (scenes analysis ! j)) [0..<length (scenes analysis)]"
    unfolding processBulk_Some[OF assms]
    by (simp add: requestsSent_append requestsSent_passes sceneRequest_Pending)
  also have "\<dots> = map (sceneRequest lc analysis ratio) (scenes analysis)"
    by (rule map_upt_nth)
  finally have one: "requestsSent (trace (processBulk lc ai analysis ratio st)) =
           map (\<lambda>s. request (refinedPrompt s)
                      (resolve lc (presentCharacters s) (characters analysis))
                      (visualStyle analysis) ratio) (scenes analysis)"
    by (simp add: sceneRequest_def[abs_def])
  have two: "length (scenesOf (results (app (processBulk lc ai analysis ratio st)))) = length (scenes analysis)"
    by (simp add: final_scenes[OF assms])
  have three: "scenesOf (results (app (processBulk lc ai analysis ratio st))) ! j =
             scenesOf (results (app (processBulk lc ai' analysis ratio st))) ! j"
    if "j < length (scenes analysis)" and "\<forall>req. ai j req = ai' j req" for j
    using that by (simp add: final_scenes[OF assms] attempt_cong[of ai j ai'])
  from one two three show ?thesis by blast
qed

text \<open>
  The example run sends its three requests although the second call is rejected, and the
  third scene ends the same when the second call succeeds instead.
\<close>

theorem failure_isolation_witness:
  "requestsSent (trace (processBulk toLowerCase_ascii exampleService exampleAnalysis ''16:9'' exampleState))
     = [request ''prompt'' ''Ayesha (tall)'' ''noir'' ''16:9'',
        request ''prompt'' ''No specific character'' ''noir'' ''16:9'',
        request ''prompt'' ''Bilal (short)'' ''noir'' ''16:9'']
   \<and> scenesOf (results (app (processBulk toLowerCase_ascii exampleService exampleAnalysis ''16:9'' exampleState))) ! 2
     = scenesOf (results (app (processBulk toLowerCase_ascii
          (\<lambda>k req. if k = 1 then Inr (imageResponse ''CCCC'') else exampleService k req)
          exampleAnalysis ''16:9'' exampleState))) ! 2"
proof -
  have res: "results exampleState = Some exampleAnalysis" by (simp add: exampleState_def)
  have n: "length (scenes exampleAnalysis) = 3" by (simp add: exampleAnalysis_def)
  note inst = failure_isolation[OF res, of toLowerCase_ascii exampleService "''16:9''"
      "\<lambda>k req. if k = 1 then Inr (imageResponse ''CCCC'') else exampleService k req"]
  from inst have "requestsSent (trace (processBulk toLowerCase_ascii exampleService exampleAnalysis ''16:9'' exampleState))
     = map (\<lambda>s. request (refinedPrompt s)
                      (resolve toLowerCase_ascii (presentCharacters s) (characters exampleAnalysis))
                      (visualStyle exampleAnalysis) ''16:9'') (scenes exampleAnalysis)"
    by blast
  also have "\<dots> = [request ''prompt'' ''Ayesha (tall)'' ''noir'' ''16:9'',
        request ''prompt'' ''No specific character'' ''noir'' ''16:9'',
        request ''prompt'' ''Bilal (short)'' ''noir'' ''16:9'']"
    by (simp add: exampleAnalysis_def exampleScene_def example_contexts)
  finally have one: "requestsSent (trace (processBulk toLowerCase_ascii exampleService exampleAnalysis ''16:9'' exampleState))
     = [request ''prompt'' ''Ayesha (tall)'' ''noir'' ''16:9'',
        request ''prompt'' ''No specific character'' ''noir'' ''16:9'',
        request ''prompt'' ''Bilal (short)'' ''noir'' ''16:9'']" .
  from inst n have "scenesOf (results (app (processBulk toLowerCase_ascii exampleService exampleAnalysis ''16:9'' exampleState))) ! 2
     = scenesOf (results (app (processBulk toLowerCase_ascii
          (\<lambda>k req. if k = 1 then Inr (imageResponse ''CCCC'') else exampleService k req)
          exampleAnalysis ''16:9'' exampleState))) ! 2"
    by simp
  with one show ?thesis by blast
qed

section \<open>The states a run ends in\<close>

text \<open>
  Claim C4. A run first installs the scenes of the analysis with every status replaced by
  \<open>Pending\<close>, whatever status the analysis gave them. When the loop has ended, the state is
  the last value the run gave to \<open>results\<close>, it holds as many scenes as the analysis, and
  every scene is \<open>Completed\<close> or \<open>Error\<close>: none is left \<open>Pending\<close> or \<open>Generating\<close>. The
  statuses a scene goes through in the successive values of \<open>results\<close>, repetitions dropped,
  are \<open>Pending\<close>, \<open>Generating\<close> and then the status it ends with.
\<close>

theorem run_postcondition:
  assumes "results st = Some analysis"
  shows "resultsUpdates (trace (processBulk lc ai analysis ratio st)) \<noteq> []
       \<and> hd (resultsUpdates (trace (processBulk lc ai analysis ratio st))) =
           Some (analysis\<lparr>scenes := map (\<lambda>s. s\<lparr>status := Pending\<rparr>) (scenes analysis)\<rparr>)
       \<and> last (resultsUpdates (trace (processBulk lc ai analysis ratio st))) =
           results (app (processBulk lc ai analysis ratio st))
       \<and> length (scenesOf (results (app (processBulk lc ai analysis ratio st)))) = length (scenes analysis)
       \<and> (\<forall>j < length (scenes analysis).
             (status (scenesOf (results (app (processBulk lc ai analysis ratio st))) ! j) = Completed
               \<or> status (scenesOf (results (app (processBulk lc ai analysis ratio st))) ! j) = Error)
           \<and> remdups_adj (statusHistory j (resultsUpdates (trace (processBulk lc ai analysis ratio st))))
               = [Pending, Generating,
                  status (scenesOf (results (app (processBulk lc ai analysis ratio st))) ! j)])"
proof -
  let ?n = "length (scenes analysis)"
  let ?upd = "map (\<lambda>s. s\<lparr>status := Pending\<rparr>) (scenes analysis)"
  let ?run = "processBulk lc ai analysis ratio st"
  let ?S = "scenesAfter lc ai analysis ratio ?upd"
  let ?G = "\<lambda>i. analysis\<lparr>scenes := (?S i)[i := (?upd ! i)\<lparr>status := Generating\<rparr>]\<rparr>"
  let ?T = "\<lambda>i. analysis\<lparr>scenes := ?S (Suc i)\<rparr>"
  have ups: "resultsUpdates (trace ?run) =
      Some (analysis\<lparr>scenes := ?upd\<rparr>) # concat (map (\<lambda>i. [Some (?G i), Some (?T i)]) [0..<?n])"
    by (simp add: processBulk_Some[OF assms] resultsUpdates_passes)
  have fin: "results (app ?run) = Some (analysis\<lparr>scenes := ?S ?n\<rparr>)"
    by (simp add: processBulk_Some[OF assms])
  have one: "resultsUpdates (trace ?run) \<noteq> []" and two: "hd (resultsUpdates (trace ?run)) =
           Some (analysis\<lparr>scenes := ?upd\<rparr>)"
    by (simp_all add: ups)
  have three: "last (resultsUpdates (trace ?run)) = results (app ?run)"
    unfolding ups fin last_concat_pairs by (simp add: scenesAfter_0)
  have four: "length (scenesOf (results (app ?run))) = ?n"
    by (simp add: fin scenesOf_def length_scenesAfter)
  have five: "(status (scenesOf (results (app ?run)) ! j) = Completed
               \<or> status (scenesOf (results (app ?run)) ! j) = Error)
           \<and> remdups_adj (statusHistory j (resultsUpdates (trace ?run)))
               = [Pending, Generating, status (scenesOf (results (app ?run)) ! j)]"
    if j: "j < ?n" for j
  proof -
    let ?t = "status (scenesOf (results (app ?run)) ! j)"
    have t: "?t = status (settle (attempt lc ai analysis ratio j (?upd ! j)) (?upd ! j))"
      using j by (simp add: fin scenesOf_def nth_scenesAfter)
    then have fate: "?t = Completed \<or> ?t = Error" by (simp add: status_settle)
    let ?f = "\<lambda>i. status (scenes (?G i) ! j)" and ?g = "\<lambda>i. status (scenes (?T i) ! j)"
    have earlier: "?f i = Pending \<and> ?g i = Pending" if "i \<in> set [0..<j]" for i
      using that j by (simp add: nth_scenesAfter length_scenesAfter)
    have here: "?f j = Generating" "?g j = ?t"
      using j by (simp_all add: nth_scenesAfter length_scenesAfter t)
    have later: "?f i = ?t \<and> ?g i = ?t" if "i \<in> set [Suc j..<?n]" for i
      using that j by (simp add: nth_scenesAfter length_scenesAfter t)
    have seq: "statusHistory j (resultsUpdates (trace ?run)) =
            Pending # concat (map (\<lambda>i. [?f i, ?g i]) [0..<j])
              @ Generating # ?t # concat (map (\<lambda>i. [?f i, ?g i]) [Suc j..<?n])"
      unfolding ups statusHistory_Cons statusHistory_pairs upt_split[OF j]
      using j here by (simp add: scenesOf_def)
    have ps: "set (concat (map (\<lambda>i. [?f i, ?g i]) [0..<j])) \<subseteq> {Pending}"
      by (rule set_concat_pairs_const) (rule earlier)
    have ts: "set (concat (map (\<lambda>i. [?f i, ?g i]) [Suc j..<?n])) \<subseteq> {?t}"
      by (rule set_concat_pairs_const) (rule later)
    have ne: "Pending \<noteq> Generating" "Generating \<noteq> ?t"
      using fate by auto
    have "remdups_adj (statusHistory j (resultsUpdates (trace ?run)))
               = [Pending, Generating, ?t]"
      unfolding seq by (rule remdups_adj_three[OF ps ts ne])
    with fate show ?thesis by blast
  qed
  from one two three four five show ?thesis by blast
qed

text \<open>
  In the example the analysis marks the scenes completed, pending and failed; the run
  starts all three as pending, and they end completed, failed and completed.
\<close>

theorem run_postcondition_witness:
  "map (\<lambda>j. remdups_adj (statusHistory j (resultsUpdates (trace
         (processBulk toLowerCase_ascii exampleService exampleAnalysis ''16:9'' exampleState))))) [0, 1, 2]
     = [[Pending, Generating, Completed], [Pending, Generating, Error], [Pending, Generating, Completed]]
   \<and> map status (scenesOf (hd (resultsUpdates (trace
         (processBulk toLowerCase_ascii exampleService exampleAnalysis ''16:9'' exampleState)))))
     = [Pending, Pending, Pending]"
proof -
  have res: "results exampleState = Some exampleAnalysis" by (simp add: exampleState_def)
  have n: "length (scenes exampleAnalysis) = 3" by (simp add: exampleAnalysis_def)
  note inst = run_postcondition[OF res, of toLowerCase_ascii exampleService "''16:9''",
      unfolded n example_run_scenes]
  have fin: "map status exampleDoneScenes = [Completed, Error, Completed]"
    by (simp add: exampleDoneScenes_def exampleScene_def)
  from inst have "\<forall>j<3. remdups_adj (statusHistory j (resultsUpdates (trace
         (processBulk toLowerCase_ascii exampleService exampleAnalysis ''16:9'' exampleState))))
      = [Pending, Generating, status (exampleDoneScenes ! j)]"
    by blast
  then have a: "map (\<lambda>j. remdups_adj (statusHistory j (resultsUpdates (trace
         (processBulk toLowerCase_ascii exampleService exampleAnalysis ''16:9'' exampleState))))) [0, 1, 2]
     = [[Pending, Generating, Completed], [Pending, Generating, Error], [Pending, Generating, Completed]]"
    by (simp add: exampleDoneScenes_def exampleScene_def)
  from inst have "hd (resultsUpdates (trace
         (processBulk toLowerCase_ascii exampleService exampleAnalysis ''16:9'' exampleState)))
     = Some (exampleAnalysis\<lparr>scenes := map (\<lambda>s. s\<lparr>status := Pending\<rparr>) (scenes exampleAnalysis)\<rparr>)"
    by blast
  then have b: "map status (scenesOf (hd (resultsUpdates (trace
         (processBulk toLowerCase_ascii exampleService exampleAnalysis ''16:9'' exampleState)))))
     = [Pending, Pending, Pending]"
    by (simp add: scenesOf_def exampleAnalysis_def exampleScene_def)
  from a b show ?thesis by blast
qed

section \<open>The progress counter\<close>

text \<open>
  Claim C5. In a run over \<open>n\<close> scenes the values given to the progress counter are, in
  order, \<open>{current: k, total: n}\<close> for \<open>k = 0, 1, ..., n\<close>: it starts at
  \<open>{current: 0, total: n}\<close>, each further value adds one to \<open>current\<close>, and the counter ends
  at \<open>{current: n, total: n}\<close>. Among these values \<open>current\<close> equals \<open>total\<close> at the last one
  only, the one written when the last pass of the loop ends (with no scene, the first value
  is the last). The value \<open>j + 1\<close> is written right after the update that settles the scene at
  position \<open>j\<close>, be it completed or failed, and before it the counter has gone through
  \<open>0, ..., j\<close>.
\<close>

theorem progress_accounting:
  assumes "results st = Some analysis"
  shows "progressUpdates (trace (processBulk lc ai analysis ratio st)) =
           map (\<lambda>k. \<lparr>current = k, total = length (scenes analysis)\<rparr>) [0..<Suc (length (scenes analysis))]
       \<and> progress (app (processBulk lc ai analysis ratio st)) =
           \<lparr>current = length (scenes analysis), total = length (scenes analysis)\<rparr>
       \<and> (\<forall>k \<le> length (scenes analysis).
             (current (progressUpdates (trace (processBulk lc ai analysis ratio st)) ! k)
                = total (progressUpdates (trace (processBulk lc ai analysis ratio st)) ! k))
             \<longleftrightarrow> k = length (scenes analysis))
       \<and> (\<forall>j < length (scenes analysis). \<exists>pre a post.
             trace (processBulk lc ai analysis ratio st) =
               pre @ [SetResults (Some a),
                      SetProgress \<lparr>current = Suc j, total = length (scenes analysis)\<rparr>] @ post
           \<and> (status (scenes a ! j) = Completed \<or> status (scenes a ! j) = Error)
           \<and> progressUpdates pre =
               map (\<lambda>k. \<lparr>current = k, total = length (scenes analysis)\<rparr>) [0..<Suc j])"
proof -
  let ?n = "length (scenes analysis)"
  let ?upd = "map (\<lambda>s. s\<lparr>status := Pending\<rparr>) (scenes analysis)"
  let ?run = "processBulk lc ai analysis ratio st"
  let ?pe = "passEvents lc ai analysis ratio analysis ?upd"
  let ?init = "[SetResults (Some (analysis\<lparr>scenes := ?upd\<rparr>)), SetProgress \<lparr>current = 0, total = ?n\<rparr>]"
  have tr: "trace ?run = ?init @ concat (map ?pe [0..<?n])"
    by (simp add: processBulk_Some[OF assms])
  have ups: "\<And>m. progressUpdates (?init @ concat (map ?pe [0..<m])) =
               map (\<lambda>k. \<lparr>current = k, total = ?n\<rparr>) [0..<Suc m]"
  proof -
    fix m
    have "map (\<lambda>k. \<lparr>current = k, total = ?n\<rparr>) [0..<Suc m]
          = \<lparr>current = 0, total = ?n\<rparr> # map (\<lambda>k. \<lparr>current = k, total = ?n\<rparr>) (map Suc [0..<m])"
      by (simp only: map_Suc_upt upt_conv_Cons[of 0 "Suc m"] list.map)
    then show "progressUpdates (?init @ concat (map ?pe [0..<m])) =
               map (\<lambda>k. \<lparr>current = k, total = ?n\<rparr>) [0..<Suc m]"
      by (simp add: progressUpdates_passes comp_def)
  qed
  have one: "progressUpdates (trace ?run) = map (\<lambda>k. \<lparr>current = k, total = ?n\<rparr>) [0..<Suc ?n]"
    unfolding tr by (rule ups)
  have two: "progress (app ?run) = \<lparr>current = ?n, total = ?n\<rparr>"
    by (simp add: processBulk_Some[OF assms])
  have three: "(current (progressUpdates (trace ?run) ! k) = total (progressUpdates (trace ?run) ! k))
                 \<longleftrightarrow> k = ?n" if "k \<le> ?n" for k
  proof -
    from that have "k < Suc ?n" by simp
    then have "map (\<lambda>k. \<lparr>current = k, total = ?n\<rparr>) [0..<Suc ?n] ! k = \<lparr>current = k, total = ?n\<rparr>"
      by (rule nth_map_upt0)
    then show ?thesis unfolding one by simp
  qed
  have four: "\<exists>pre a post.
             trace ?run = pre @ [SetResults (Some a), SetProgress \<lparr>current = Suc j, total = ?n\<rparr>] @ post
           \<and> (status (scenes a ! j) = Completed \<or> status (scenes a ! j) = Error)
           \<and> progressUpdates pre = map (\<lambda>k. \<lparr>current = k, total = ?n\<rparr>) [0..<Suc j]"
    if j: "j < ?n" for j
  proof -
    let ?pre = "(?init @ concat (map ?pe [0..<j])) @
        [SetResults (Some (analysis\<lparr>scenes := (scenesAfter lc ai analysis ratio ?upd j)
                                    [j := (?upd ! j)\<lparr>status := Generating\<rparr>]\<rparr>)),
         GenerateContent (sceneRequest lc analysis ratio (?upd ! j))]"
    let ?a = "analysis\<lparr>scenes := scenesAfter lc ai analysis ratio ?upd (Suc j)\<rparr>"
    let ?post = "concat (map ?pe [Suc j..<?n])"
    have "trace ?run = ?pre @ [SetResults (Some ?a), SetProgress \<lparr>current = Suc j, total = ?n\<rparr>] @ ?post"
      unfolding tr upt_split[OF j] by (simp add: passEvents_def)
    moreover have "status (scenes ?a ! j) = Completed \<or> status (scenes ?a ! j) = Error"
      using j by (simp add: nth_scenesAfter status_settle)
    moreover have "progressUpdates ?pre = map (\<lambda>k. \<lparr>current = k, total = ?n\<rparr>) [0..<Suc j]"
      unfolding progressUpdates_append[of "?init @ concat (map ?pe [0..<j])"] ups by simp
    ultimately show ?thesis by blast
  qed
  from one two three four show ?thesis by blast
qed

text \<open>
  The example run over three scenes, one of which fails, counts 0, 1, 2, 3 of 3.
\<close>

theorem progress_accounting_witness:
  "progressUpdates (trace (processBulk toLowerCase_ascii exampleService exampleAnalysis ''16:9'' exampleState))
     = [\<lparr>current = 0, total = 3\<rparr>, \<lparr>current = 1, total = 3\<rparr>,
        \<lparr>current = 2, total = 3\<rparr>, \<lparr>current = 3, total = 3\<rparr>]
   \<and> progress (app (processBulk toLowerCase_ascii exampleService exampleAnalysis ''16:9'' exampleState))
     = \<lparr>current = 3, total = 3\<rparr>"
proof -
  have res: "results exampleState = Some exampleAnalysis" by (simp add: exampleState_def)
  have n: "length (scenes exampleAnalysis) = 3" by (simp add: exampleAnalysis_def)
  have u: "[0..<Suc 3] = [0, 1, 2, 3]" by code_simp
  from progress_accounting[OF res, of toLowerCase_ascii exampleService "''16:9''"]
  show ?thesis unfolding n u by simp
qed

section \<open>The archive\<close>

text \<open>
  Claim C6. For every scene list held in \<open>results\<close> with at least one scene that is
  completed and has a non-empty \<open>imageUrl\<close>: the archive handed to the encoder has one
  entry for each such scene and no other, in the order of the scene list; entry \<open>i\<close>
  (from 0) is named scene-(i+1).png, carries the payload of the \<open>i\<close>-th such scene and is
  dated with the time of its \<^verbatim>\<open>zip.file\<close> call, so the names are scene-1.png to scene-k.png without a gap, whatever the positions of the
  scenes in the list, and no two entries share a name. The blob of the encoder is offered
  for download as visionbulk-scenes.zip.
\<close>

theorem bundle_dense_numbering:
  assumes "results st = Some a"
    and "cs = filter (\<lambda>s. status s = Completed \<and> (\<exists>u. imageUrl s = Some u \<and> u \<noteq> [])) (scenes a)"
    and "cs \<noteq> []"
  shows "\<exists>z. trace (downloadAllAsZip generateAsync now st) =
               [SetIsZipping True, GenerateAsync z,
                (case generateAsync z of
                   Inr blob \<Rightarrow> Download (ObjectURL blob) ''visionbulk-scenes.zip''
                 | Inl err \<Rightarrow> ConsoleError ''Failed to create ZIP''),
                SetIsZipping False]
           \<and> length z = length cs
           \<and> (\<forall>i < length cs.
                 z ! i = (''scene-'' @ show_nat (i + 1) @ ''.png'', base64Data (the (imageUrl (cs ! i))), now i))
           \<and> map fst z = map (\<lambda>n. ''scene-'' @ show_nat n @ ''.png'') [1..<length cs + 1]
           \<and> distinct (map fst z)"
proof -
  let ?z = "zipLoop now (completedScenes (scenes a)) 0 []"
  from assms(2) have cs: "completedScenes (scenes a) = cs" by (simp add: completedScenes_iff)
  have z: "?z = map (\<lambda>j. (sceneFileName j, base64Data (the (imageUrl (cs ! j))), now j)) [0..<length cs]"
    using zipLoop_completed[of now "scenes a"] by (simp add: cs)
  have t: "trace (downloadAllAsZip generateAsync now st) =
               [SetIsZipping True, GenerateAsync ?z,
                (case generateAsync ?z of
                   Inr blob \<Rightarrow> Download (ObjectURL blob) ''visionbulk-scenes.zip''
                 | Inl err \<Rightarrow> ConsoleError ''Failed to create ZIP''),
                SetIsZipping False]"
    using assms(1,3) by (simp add: downloadAllAsZip_some cs)
  have l: "length ?z = length cs" by (simp add: z)
  have n: "\<forall>i < length cs.
             ?z ! i = (''scene-'' @ show_nat (i + 1) @ ''.png'', base64Data (the (imageUrl (cs ! i))), now i)"
    by (simp add: z sceneFileName_def)
  have names0: "map fst ?z = map sceneFileName [0..<length cs]"
    by (simp add: z comp_def)
  have "map sceneFileName [0..<length cs] = map (\<lambda>n. ''scene-'' @ show_nat n @ ''.png'') (map Suc [0..<length cs])"
    by (simp add: sceneFileName_def comp_def)
  also have "map Suc [0..<length cs] = [1..<length cs + 1]"
    by (simp add: map_Suc_upt)
  finally have names: "map fst ?z = map (\<lambda>n. ''scene-'' @ show_nat n @ ''.png'') [1..<length cs + 1]"
    using names0 by simp
  have "inj_on sceneFileName (set [0..<length cs])"
    by (rule inj_onI) (simp add: sceneFileName_inj)
  then have d: "distinct (map fst ?z)"
    unfolding names0 by (simp add: distinct_map)
  from t l n names d show ?thesis by blast
qed

text \<open>
  Three scenes, the second failed, bundled at time 10: the archive has the entries
  scene-1.png and scene-2.png, for the first and the third scene.
\<close>

theorem bundle_dense_numbering_witness:
  "trace (downloadAllAsZip (\<lambda>z. Inr ''blob'') (clockAt 10) exampleDone) =
     [SetIsZipping True,
      GenerateAsync [(''scene-1.png'', Some ''AAAA'', 10), (''scene-2.png'', Some ''BBBB'', 10)],
      Download (ObjectURL ''blob'') ''visionbulk-scenes.zip'',
      SetIsZipping False]"
proof -
  let ?cs = "[exampleDoneScenes ! 0, exampleDoneScenes ! 2]"
  have res: "results exampleDone = Some (exampleAnalysis\<lparr>scenes := exampleDoneScenes\<rparr>)"
    by (simp add: exampleDone_def)
  have cs: "?cs = filter (\<lambda>s. status s = Completed \<and> (\<exists>u. imageUrl s = Some u \<and> u \<noteq> []))
                    (scenes (exampleAnalysis\<lparr>scenes := exampleDoneScenes\<rparr>))"
    by (simp add: exampleDoneScenes_def exampleScene_def)
  have ne: "?cs \<noteq> []" by simp
  from bundle_dense_numbering[OF res cs ne, of "\<lambda>z. Inr ''blob''" "clockAt 10"]
  obtain z where t: "trace (downloadAllAsZip (\<lambda>z. Inr ''blob'') (clockAt 10) exampleDone) =
               [SetIsZipping True, GenerateAsync z,
                Download (ObjectURL ''blob'') ''visionbulk-scenes.zip'', SetIsZipping False]"
    and l: "length z = 2"
    and n: "\<forall>i < 2. z ! i = (''scene-'' @ show_nat (i + 1) @ ''.png'', base64Data (the (imageUrl (?cs ! i))),
                          clockAt 10 i)"
    by auto
  from n have "z ! 0 = (''scene-1.png'', Some ''AAAA'', 10)"
    by (simp add: show_nat.simps digit_def exampleDoneScenes_def exampleScene_def base64Data_def
          at_index_def clockAt_def)
  moreover from n have "z ! 1 = (''scene-2.png'', Some ''BBBB'', 10)"
    by (simp add: show_nat.simps digit_def exampleDoneScenes_def exampleScene_def base64Data_def
          at_index_def clockAt_def)
  ultimately have "z = [(''scene-1.png'', Some ''AAAA'', 10), (''scene-2.png'', Some ''BBBB'', 10)]"
    using list_of_length_2[OF l] by simp
  with t show ?thesis by simp
qed

section \<open>Nothing to bundle, and a failing encoder\<close>

text \<open>
  Claim C7. The claim: with no scene to bundle the call reports "nothing to bundle", does no
  encoding work and changes no scene; a failure of the encoder is reported to the caller
  and changes no scene either. The code at the finished example (scenes 1 and 3 completed,
  scene 2 failed), bundled at time 10 with an encoder that rejects the archive: the busy
  flag is set, the encoder is called, "Failed to create ZIP" is written to the error
  console, the busy flag is cleared. No dialog is shown, nothing is downloaded, and the
  state the call leaves is the state a successful call leaves, so the caller is not told of
  the failure. The same function does tell the user when there is nothing to bundle: on the
  state before any image exists it shows the dialog "No images ready to download yet." and
  neither calls the encoder nor downloads anything. The scenes are unchanged in both calls.
\<close>

theorem bundle_failure_not_surfaced:
  "trace (downloadAllAsZip failingEncoder (clockAt 10) exampleDone) =
     [SetIsZipping True,
      GenerateAsync [(''scene-1.png'', Some ''AAAA'', 10), (''scene-2.png'', Some ''BBBB'', 10)],
      ConsoleError ''Failed to create ZIP'',
      SetIsZipping False]
   \<and> app (downloadAllAsZip failingEncoder (clockAt 10) exampleDone)
     = app (downloadAllAsZip listingEncoder (clockAt 10) exampleDone)
   \<and> results (app (downloadAllAsZip failingEncoder (clockAt 10) exampleDone)) = results exampleDone
   \<and> trace (downloadAllAsZip failingEncoder (clockAt 10) exampleState) =
     [SetIsZipping True, Alert ''No images ready to download yet.'', SetIsZipping False]
   \<and> results (app (downloadAllAsZip failingEncoder (clockAt 10) exampleState)) = results exampleState"
proof -
  have r1: "results exampleState = Some exampleAnalysis" by (simp add: exampleState_def)
  have e1: "completedScenes (scenes exampleAnalysis) = []"
    by (simp add: completedScenes_def truthy_def exampleAnalysis_def exampleScene_def)
  have r2: "results exampleDone = Some (exampleAnalysis\<lparr>scenes := exampleDoneScenes\<rparr>)"
    by (simp add: exampleDone_def)
  have e2: "completedScenes (scenes (exampleAnalysis\<lparr>scenes := exampleDoneScenes\<rparr>)) \<noteq> []"
    using example_completed by simp
  have sc: "scenes (exampleAnalysis\<lparr>scenes := exampleDoneScenes\<rparr>) = exampleDoneScenes" by simp
  show ?thesis
    unfolding downloadAllAsZip_some[OF r2 e2] downloadAllAsZip_empty[OF r1 e1] sc example_archive
    by (simp add: failingEncoder_def listingEncoder_def clockAt_def r1 r2)
qed

section \<open>Bundling twice\<close>




section \<open>The export of a single scene\<close>

text \<open>
  Claim C9. \<open>downloadImage url index\<close> offers \<open>url\<close> for download under the name
  scene-(index+1).png. The button of the scene at position \<open>idx\<close> (from 0) of the scene list,
  a completed scene with the payload \<open>url\<close>, calls it with that position, so the name is
  scene-(idx+1).png, by the place of the scene in the whole list. The bundler files the same
  scene, with the same payload and the date of the bundling, as scene-(d+1).png, where
  \<open>d\<close> counts the bundled scenes before it; \<open>d \<le> idx\<close>, and the two names agree exactly when every earlier scene is
  bundled too.
\<close>

theorem single_export_original_index:
  "trace (downloadImage url index r) =
      trace r @ [Download (Url url) (''scene-'' @ show_nat (index + 1) @ ''.png'')]
   \<and> (results st = Some a \<longrightarrow> idx < length (scenes a) \<longrightarrow>
        status (scenes a ! idx) = Completed \<longrightarrow> imageUrl (scenes a ! idx) = Some url \<longrightarrow> url \<noteq> [] \<longrightarrow>
        d = length (filter (\<lambda>s. status s = Completed \<and> (\<exists>u. imageUrl s = Some u \<and> u \<noteq> []))
                     (take idx (scenes a))) \<longrightarrow>
          trace (clickSceneDownload idx st) =
             [Download (Url url) (''scene-'' @ show_nat (idx + 1) @ ''.png'')]
        \<and> zipLoop now (completedScenes (scenes a)) 0 [] ! d =
             (''scene-'' @ show_nat (d + 1) @ ''.png'', base64Data url, now d)
        \<and> d \<le> idx
        \<and> (''scene-'' @ show_nat (d + 1) @ ''.png'' = ''scene-'' @ show_nat (idx + 1) @ ''.png''
             \<longleftrightarrow> (\<forall>j < idx. status (scenes a ! j) = Completed
                             \<and> (\<exists>u. imageUrl (scenes a ! j) = Some u \<and> u \<noteq> []))))"
proof -
  have one: "trace (downloadImage url index r) =
      trace r @ [Download (Url url) (''scene-'' @ show_nat (index + 1) @ ''.png'')]"
    by (simp add: downloadImage_def emit_def sceneFileName_def)
  have two: "trace (clickSceneDownload idx st) =
             [Download (Url url) (''scene-'' @ show_nat (idx + 1) @ ''.png'')]
        \<and> zipLoop now (completedScenes (scenes a)) 0 [] ! d =
             (''scene-'' @ show_nat (d + 1) @ ''.png'', base64Data url, now d)
        \<and> d \<le> idx
        \<and> (''scene-'' @ show_nat (d + 1) @ ''.png'' = ''scene-'' @ show_nat (idx + 1) @ ''.png''
             \<longleftrightarrow> (\<forall>j < idx. status (scenes a ! j) = Completed
                             \<and> (\<exists>u. imageUrl (scenes a ! j) = Some u \<and> u \<noteq> [])))"
    if res: "results st = Some a" and idx: "idx < length (scenes a)"
      and st: "status (scenes a ! idx) = Completed" and url: "imageUrl (scenes a ! idx) = Some url"
      and ne: "url \<noteq> []"
      and d: "d = length (filter (\<lambda>s. status s = Completed \<and> (\<exists>u. imageUrl s = Some u \<and> u \<noteq> []))
                     (take idx (scenes a)))"
  proof -
    let ?ss = "scenes a"
    from d have d': "d = length (completedScenes (take idx ?ss))"
      by (simp add: completedScenes_iff)
    have click: "trace (clickSceneDownload idx st) =
             [Download (Url url) (''scene-'' @ show_nat (idx + 1) @ ''.png'')]"
      using res idx url ne
      by (simp add: clickSceneDownload_def downloadImage_def emit_def sceneFileName_def)
    have split: "completedScenes ?ss =
           completedScenes (take idx ?ss) @ ?ss ! idx # completedScenes (drop (Suc idx) ?ss)"
      using idx st url ne by (rule completedScenes_split)
    then have at_d: "completedScenes ?ss ! d = ?ss ! idx" and lt: "d < length (completedScenes ?ss)"
      by (simp_all add: d')
    have entry: "zipLoop now (completedScenes ?ss) 0 [] ! d =
             (''scene-'' @ show_nat (d + 1) @ ''.png'', base64Data url, now d)"
      using lt by (simp add: zipLoop_completed at_d url sceneFileName_def)
    have le: "d \<le> idx"
    proof -
      have "d \<le> length (take idx ?ss)" unfolding d' completedScenes_def by (rule length_filter_le)
      then show ?thesis by simp
    qed
    have "(''scene-'' @ show_nat (d + 1) @ ''.png'' = ''scene-'' @ show_nat (idx + 1) @ ''.png'')
            \<longleftrightarrow> d = idx"
      using sceneFileName_inj[of d idx] by (simp add: sceneFileName_def)
    also have "\<dots> \<longleftrightarrow> length (filter (\<lambda>s. status s = Completed \<and> (\<exists>u. imageUrl s = Some u \<and> u \<noteq> []))
                     (take idx ?ss)) = length (take idx ?ss)"
      using idx d by simp
    also have "\<dots> \<longleftrightarrow> (\<forall>s \<in> set (take idx ?ss). status s = Completed \<and> (\<exists>u. imageUrl s = Some u \<and> u \<noteq> []))"
      by (rule length_filter_eq_iff)
    also have "\<dots> \<longleftrightarrow> (\<forall>j < idx. status (?ss ! j) = Completed
                             \<and> (\<exists>u. imageUrl (?ss ! j) = Some u \<and> u \<noteq> []))"
      using idx by (simp add: all_set_conv_all_nth)
    finally show ?thesis using click entry le by blast
  qed
  from one two show ?thesis by blast
qed

text \<open>
  In the finished example the third scene is exported alone as scene-3.png, and is
  scene-2.png in the archive, since the second scene failed.
\<close>

theorem single_export_original_index_witness:
  "trace (clickSceneDownload 2 exampleDone)
     = [Download (Url ''data:image/png;base64,BBBB'') ''scene-3.png'']
   \<and> zipLoop (clockAt 10) (completedScenes exampleDoneScenes) 0 [] ! 1
       = (''scene-2.png'', Some ''BBBB'', 10)"
proof -
  have res: "results exampleDone = Some (exampleAnalysis\<lparr>scenes := exampleDoneScenes\<rparr>)"
    by (simp add: exampleDone_def)
  have sc: "scenes (exampleAnalysis\<lparr>scenes := exampleDoneScenes\<rparr>) = exampleDoneScenes" by simp
  have idx: "2 < length exampleDoneScenes"
    and st: "status (exampleDoneScenes ! 2) = Completed"
    and url: "imageUrl (exampleDoneScenes ! 2) = Some ''data:image/png;base64,BBBB''"
    by (simp_all add: exampleDoneScenes_def exampleScene_def)
  have d: "1 = length (filter (\<lambda>s. status s = Completed \<and> (\<exists>u. imageUrl s = Some u \<and> u \<noteq> []))
                     (take 2 exampleDoneScenes))"
    by (simp add: exampleDoneScenes_def exampleScene_def)
  have n3: "show_nat 3 = ''3''" and n2: "show_nat (Suc (Suc 0)) = ''2''"
    by (simp_all add: show_nat.simps digit_def)
  have b: "base64Data ''data:image/png;base64,BBBB'' = Some ''BBBB''"
    by (simp add: base64Data_def at_index_def)
  have ne: "''data:image/png;base64,BBBB'' \<noteq> []" by simp
  note inst = single_export_original_index[of "''data:image/png;base64,BBBB''" 0
      "\<lparr>app = exampleDone, trace = []\<rparr>"
      exampleDone "exampleAnalysis\<lparr>scenes := exampleDoneScenes\<rparr>" 2 1 "clockAt 10"]
  have "trace (clickSceneDownload 2 exampleDone) =
             [Download (Url ''data:image/png;base64,BBBB'') (''scene-'' @ show_nat (2 + 1) @ ''.png'')]
        \<and> zipLoop (clockAt 10) (completedScenes exampleDoneScenes) 0 [] ! 1 =
             (''scene-'' @ show_nat (1 + 1) @ ''.png'', base64Data ''data:image/png;base64,BBBB'', clockAt 10 1)"
    using inst[THEN conjunct2, rule_format, OF res, unfolded sc, OF idx st url ne d] by blast
  then show ?thesis
    by (simp add: n3 n2 b clockAt_def)
qed

section \<open>The image payload\<close>



end
